theory Spec2Isabelle
  imports Main "HOL-Library.AList" "HOL-Library.Char_ord" "HOL-Library.List_Lexorder"
    "HOL-Library.Sublist"
begin

section \<open>Python strings\<close>

text \<open>
  A Python \<open>str\<close> is modelled as a \<^typ>\<open>string\<close> whose characters are read as the code
  points below 256. The classification of characters follows Python's on that range.
\<close>

definition py_isspace :: "char \<Rightarrow> bool" where
  "py_isspace c =
     (let n = (of_char c :: nat)
      in (9 \<le> n \<and> n \<le> 13) \<or> (28 \<le> n \<and> n \<le> 32) \<or> n = 133 \<or> n = 160)"

definition is_linebreak :: "char \<Rightarrow> bool" where
  "is_linebreak c =
     (let n = (of_char c :: nat)
      in (10 \<le> n \<and> n \<le> 13) \<or> (28 \<le> n \<and> n \<le> 30) \<or> n = 133)"

definition isalnum_char :: "char \<Rightarrow> bool" where
  "isalnum_char c =
     (let n = (of_char c :: nat)
      in (48 \<le> n \<and> n \<le> 57) \<or> (65 \<le> n \<and> n \<le> 90) \<or> (97 \<le> n \<and> n \<le> 122)
         \<or> n = 170 \<or> n = 178 \<or> n = 179 \<or> n = 181 \<or> n = 185 \<or> n = 186
         \<or> (188 \<le> n \<and> n \<le> 190) \<or> (192 \<le> n \<and> n \<le> 214)
         \<or> (216 \<le> n \<and> n \<le> 246) \<or> (248 \<le> n \<and> n \<le> 255))"

text \<open>\<open>s.isalnum()\<close>: every character is alphanumeric and there is at least one.\<close>

definition py_isalnum :: "string \<Rightarrow> bool" where
  "py_isalnum s = (s \<noteq> [] \<and> list_all isalnum_char s)"

text \<open>\<open>s.strip()\<close>\<close>

definition py_strip :: "string \<Rightarrow> string" where
  "py_strip s = rev (dropWhile py_isspace (rev (dropWhile py_isspace s)))"

text \<open>\<open>s.replace(c, "")\<close> for a pattern \<open>c\<close> of one character.\<close>

definition py_remove :: "char \<Rightarrow> string \<Rightarrow> string" where
  "py_remove c s = filter (\<lambda>x. x \<noteq> c) s"

text \<open>
  \<open>s.splitlines()\<close>: the text is cut after every line boundary; \<open>\r\n\<close> counts as one
  boundary, and a last line without characters is not reported.
\<close>

fun splitlines_from :: "string \<Rightarrow> string \<Rightarrow> string list" where
  "splitlines_from cur [] = (if cur = [] then [] else [cur])"
| "splitlines_from cur (c # cs) =
     (if c = CHR 0x0D \<and> cs \<noteq> [] \<and> hd cs = CHR 0x0A then cur # splitlines_from [] (tl cs)
      else if is_linebreak c then cur # splitlines_from [] cs
      else splitlines_from (cur @ [c]) cs)"

definition py_splitlines :: "string \<Rightarrow> string list" where
  "py_splitlines s = splitlines_from [] s"

text \<open>\<open>"\n".join(lines)\<close>\<close>

fun join_nl :: "string list \<Rightarrow> string" where
  "join_nl [] = []"
| "join_nl [l] = l"
| "join_nl (l # ls) = l @ CHR 0x0A # join_nl ls"

text \<open>\<open>line.split(":", 1)\<close> on a line that contains a colon.\<close>

definition split_colon :: "string \<Rightarrow> string \<times> string" where
  "split_colon line =
     (takeWhile (\<lambda>c. c \<noteq> CHR '':'') line, tl (dropWhile (\<lambda>c. c \<noteq> CHR '':'') line))"

text \<open>\<open>f"'{name}'"\<close>\<close>

definition quoted :: "string \<Rightarrow> string" where
  "quoted name = CHR 0x27 # name @ [CHR 0x27]"

section \<open>JSON values as \<open>json.loads\<close> returns them\<close>

text \<open>
  An object is a Python \<open>dict\<close>: an association list in insertion order. Assignment to a
  key is \<^const>\<open>AList.update\<close> (in place when the key exists, appended otherwise), removal
  of a key is \<^const>\<open>AList.delete\<close>, lookup is \<^const>\<open>map_of\<close>. Numbers are the integers.
\<close>

datatype json =
    JNull
  | JBool bool
  | JNum int
  | JStr string
  | JArr "json list"
  | JObj "(string \<times> json) list"

datatype py_error =
    AttributeError
  | KeyError
  | TypeError
  | IndexError
  | JSONDecodeError
  | FileNotFoundError

text \<open>Truth value of a JSON value in a Python condition.\<close>

fun py_truthy :: "json \<Rightarrow> bool" where
  "py_truthy JNull = False"
| "py_truthy (JBool b) = b"
| "py_truthy (JNum n) = (n \<noteq> 0)"
| "py_truthy (JStr s) = (s \<noteq> [])"
| "py_truthy (JArr xs) = (xs \<noteq> [])"
| "py_truthy (JObj kvs) = (kvs \<noteq> [])"

text \<open>\<open>x.get(k, d)\<close>: only a dict has the method.\<close>

fun py_get :: "json \<Rightarrow> string \<Rightarrow> json \<Rightarrow> py_error + json" where
  "py_get (JObj kvs) k d = Inr (case map_of kvs k of None \<Rightarrow> d | Some v \<Rightarrow> v)"
| "py_get _ k d = Inl AttributeError"

text \<open>\<open>x[k]\<close> for a string key \<open>k\<close>.\<close>

fun py_getitem :: "json \<Rightarrow> string \<Rightarrow> py_error + json" where
  "py_getitem (JObj kvs) k = (case map_of kvs k of None \<Rightarrow> Inl KeyError | Some v \<Rightarrow> Inr v)"
| "py_getitem _ k = Inl TypeError"

text \<open>\<open>x[k] = v\<close> for a string key \<open>k\<close>.\<close>

fun py_setitem :: "json \<Rightarrow> string \<Rightarrow> json \<Rightarrow> py_error + json" where
  "py_setitem (JObj kvs) k v = Inr (JObj (AList.update k v kvs))"
| "py_setitem _ k v = Inl TypeError"

text \<open>\<open>x.pop(k, None)\<close> for a string key \<open>k\<close>: a list takes one argument at most.\<close>

fun py_pop :: "json \<Rightarrow> string \<Rightarrow> py_error + json" where
  "py_pop (JObj kvs) k = Inr (JObj (AList.delete k kvs))"
| "py_pop (JArr xs) k = Inl TypeError"
| "py_pop _ k = Inl AttributeError"

text \<open>\<open>x[0]\<close>\<close>

fun py_first :: "json \<Rightarrow> py_error + json" where
  "py_first (JArr (x # xs)) = Inr x"
| "py_first (JArr []) = Inl IndexError"
| "py_first (JStr (c # cs)) = Inr (JStr [c])"
| "py_first (JStr []) = Inl IndexError"
| "py_first (JObj kvs) = Inl KeyError"
| "py_first _ = Inl TypeError"

text \<open>The elements a \<open>for\<close> loop visits.\<close>

fun py_iter :: "json \<Rightarrow> py_error + json list" where
  "py_iter (JArr xs) = Inr xs"
| "py_iter (JObj kvs) = Inr (map (\<lambda>kv. JStr (fst kv)) kvs)"
| "py_iter (JStr s) = Inr (map (\<lambda>c. JStr [c]) s)"
| "py_iter _ = Inl TypeError"

section \<open>The persisted files\<close>

text \<open>
  A JSON file is absent, holds text that \<open>json.loads\<close> rejects, or holds a JSON value.
  The two text files hold their text. A descriptor file in the subscription directory is
  represented by its name and by what \<open>base64.b64decode(...).decode()\<close> yields on its
  content, \<open>None\<close> when that raises; the list is in the order \<open>iterdir\<close> reports.
\<close>

datatype jfile = NoFile | Garbled | Json json

record fs =
  config_file :: jfile
  uuids_file :: "string option"
  disabled_file :: "string option"
  sub_dir :: "(string \<times> string option) list"
  totals_file :: jfile
  stats_file :: jfile
  history_file :: jfile

text \<open>The environment variables, and Python's \<open>str()\<close> on a value that is not a string.\<close>

record env =
  DOMAIN :: string
  SERVER_ADDRESS :: string
  SUB_PORT :: string
  REALITY_PUBLIC_KEY :: "string option"
  py_format :: "json \<Rightarrow> string"

type_synonym uuids = "(string \<times> string) list"

definition read_uuids :: "fs \<Rightarrow> uuids" where
  "read_uuids s =
     (case uuids_file s of
        None \<Rightarrow> []
      | Some text \<Rightarrow>
          fold (\<lambda>line result.
                  if CHR '':'' \<in> set line
                  then (case split_colon line of
                          (name, uid) \<Rightarrow> AList.update (py_strip name) (py_strip uid) result)
                  else result)
               (py_splitlines (py_strip text)) [])"

definition uuids_text :: "uuids \<Rightarrow> string" where
  "uuids_text uuids =
     (let lines = map (\<lambda>(name, uid). name @ '':'' @ uid) uuids
      in if lines \<noteq> [] then join_nl lines @ [CHR 0x0A] else [])"

definition write_uuids :: "uuids \<Rightarrow> fs \<Rightarrow> fs" where
  "write_uuids uuids s = s\<lparr>uuids_file := Some (uuids_text uuids)\<rparr>"

definition read_disabled :: "fs \<Rightarrow> string set" where
  "read_disabled s =
     (case disabled_file s of
        None \<Rightarrow> {}
      | Some text \<Rightarrow> set (py_splitlines (py_strip text)))"

definition disabled_text :: "string set \<Rightarrow> string" where
  "disabled_text disabled =
     (if disabled \<noteq> {} then join_nl (sorted_list_of_set disabled) @ [CHR 0x0A] else [])"

definition write_disabled :: "string set \<Rightarrow> fs \<Rightarrow> fs" where
  "write_disabled disabled s = s\<lparr>disabled_file := Some (disabled_text disabled)\<rparr>"

definition read_config :: "fs \<Rightarrow> py_error + json" where
  "read_config s =
     (case config_file s of
        NoFile \<Rightarrow> Inl FileNotFoundError
      | Garbled \<Rightarrow> Inl JSONDecodeError
      | Json cfg \<Rightarrow> Inr cfg)"

definition write_config :: "json \<Rightarrow> fs \<Rightarrow> fs" where
  "write_config cfg s = s\<lparr>config_file := Json cfg\<rparr>"

definition read_totals :: "fs \<Rightarrow> json" where
  "read_totals s = (case totals_file s of Json totals \<Rightarrow> totals | _ \<Rightarrow> JObj [])"

definition write_totals :: "json \<Rightarrow> fs \<Rightarrow> fs" where
  "write_totals totals s = s\<lparr>totals_file := Json totals\<rparr>"

section \<open>Token registry\<close>

text \<open>The loop of \<open>find_subscription_token\<close> over the directory's entries.\<close>

fun scan_tokens :: "string \<Rightarrow> (string \<times> string option) list \<Rightarrow> string option" where
  "scan_tokens user_uuid [] = None"
| "scan_tokens user_uuid ((fname, content) # files) =
     (if \<not> prefix ''.'' fname
      then (case content of
              None \<Rightarrow> scan_tokens user_uuid files
            | Some text \<Rightarrow>
                if sublist user_uuid text then Some fname else scan_tokens user_uuid files)
      else scan_tokens user_uuid files)"

definition find_subscription_token :: "string \<Rightarrow> fs \<Rightarrow> string option" where
  "find_subscription_token username s =
     (case map_of (read_uuids s) username of
        None \<Rightarrow> None
      | Some user_uuid \<Rightarrow>
          if user_uuid = [] then None else scan_tokens user_uuid (sub_dir s))"

definition sub_url_of :: "env \<Rightarrow> string \<Rightarrow> string" where
  "sub_url_of e token =
     (if DOMAIN e \<noteq> []
      then ''https://'' @ DOMAIN e @ '':'' @ SUB_PORT e @ ''/sub/'' @ token
      else ''http://'' @ SERVER_ADDRESS e @ '':'' @ SUB_PORT e @ ''/sub/'' @ token)"

definition get_subscription_url :: "env \<Rightarrow> string \<Rightarrow> fs \<Rightarrow> string option" where
  "get_subscription_url e username s =
     (case find_subscription_token username s of
        None \<Rightarrow> None
      | Some token \<Rightarrow> if token \<noteq> [] then Some (sub_url_of e token) else None)"

definition py_str :: "env \<Rightarrow> json \<Rightarrow> string" where
  "py_str e v = (case v of JStr s \<Rightarrow> s | _ \<Rightarrow> py_format e v)"

text \<open>\<open>rs[k][0] if rs.get(k) else ""\<close>\<close>

definition first_or_empty :: "json \<Rightarrow> string \<Rightarrow> py_error + json" where
  "first_or_empty rs k =
     (case py_get rs k JNull of
        Inl err \<Rightarrow> Inl err
      | Inr v \<Rightarrow>
          if py_truthy v
          then (case py_getitem rs k of Inl err \<Rightarrow> Inl err | Inr w \<Rightarrow> py_first w)
          else Inr (JStr []))"

text \<open>
  The public key is the environment variable when it is set; the default,
  \<open>REALITY.get("publicKey", "")\<close>, is the empty string whatever \<open>load_reality_params\<close> found.
\<close>

definition vless_text :: "env \<Rightarrow> string \<Rightarrow> string \<Rightarrow> json \<Rightarrow> json \<Rightarrow> string" where
  "vless_text e username user_uuid sni sid =
     (let pbk = (case REALITY_PUBLIC_KEY e of None \<Rightarrow> [] | Some k \<Rightarrow> k)
      in ''vless://'' @ user_uuid @ ''@'' @ SERVER_ADDRESS e @ '':443''
         @ ''?security=reality&encryption=none&flow=xtls-rprx-vision''
         @ ''&pbk='' @ pbk @ ''&fp=chrome&sni='' @ py_str e sni @ ''&sid='' @ py_str e sid
         @ ''&type=tcp'' @ ''#'' @ username)"

fun vless_scan :: "env \<Rightarrow> string \<Rightarrow> string \<Rightarrow> json list \<Rightarrow> py_error + string option" where
  "vless_scan e username user_uuid [] = Inr None"
| "vless_scan e username user_uuid (inbound # rest) =
     (case py_get inbound ''streamSettings'' (JObj []) of
        Inl err \<Rightarrow> Inl err
      | Inr ss \<Rightarrow>
          (case py_get ss ''realitySettings'' JNull of
             Inl err \<Rightarrow> Inl err
           | Inr rs \<Rightarrow>
               if py_truthy rs
               then (case first_or_empty rs ''serverNames'' of
                       Inl err \<Rightarrow> Inl err
                     | Inr sni \<Rightarrow>
                         (case first_or_empty rs ''shortIds'' of
                            Inl err \<Rightarrow> Inl err
                          | Inr sid \<Rightarrow> Inr (Some (vless_text e username user_uuid sni sid))))
               else vless_scan e username user_uuid rest))"

definition build_vless_link :: "env \<Rightarrow> string \<Rightarrow> string \<Rightarrow> fs \<Rightarrow> py_error + string option" where
  "build_vless_link e username user_uuid s =
     (case read_config s of
        Inl err \<Rightarrow> Inl err
      | Inr cfg \<Rightarrow>
          (case py_get cfg ''inbounds'' (JArr []) of
             Inl err \<Rightarrow> Inl err
           | Inr inbounds \<Rightarrow>
               (case py_iter inbounds of
                  Inl err \<Rightarrow> Inl err
                | Inr items \<Rightarrow> vless_scan e username user_uuid items)))"

text \<open>The token is the value \<open>secrets.token_hex(16)\<close> returns, an argument here.\<close>

definition create_subscription_file ::
  "env \<Rightarrow> string \<Rightarrow> string \<Rightarrow> string \<Rightarrow> fs \<Rightarrow> (py_error + string option) \<times> fs" where
  "create_subscription_file e username user_uuid token s =
     (case build_vless_link e username user_uuid s of
        Inl err \<Rightarrow> (Inl err, s)
      | Inr None \<Rightarrow> (Inr None, s)
      | Inr (Some vless) \<Rightarrow>
          if vless = [] then (Inr None, s)
          else (Inr (Some token), s\<lparr>sub_dir := AList.update token (Some vless) (sub_dir s)\<rparr>))"

section \<open>Config synthesizer\<close>

definition client_record :: "string \<Rightarrow> string \<Rightarrow> json" where
  "client_record name uid =
     JObj [(''id'', JStr uid), (''flow'', JStr ''xtls-rprx-vision''),
           (''email'', JStr name), (''level'', JNum 0)]"

definition active_uuids :: "uuids \<Rightarrow> string set \<Rightarrow> uuids" where
  "active_uuids uuids disabled = filter (\<lambda>(name, uid). name \<notin> disabled) uuids"

definition clients_of :: "uuids \<Rightarrow> string set \<Rightarrow> json list" where
  "clients_of uuids disabled =
     map (\<lambda>(name, uid). client_record name uid) (active_uuids uuids disabled)"

text \<open>
  The loop over the inbounds: the first one whose protocol is \<open>vless\<close> gets the client list,
  and the loop stops. The result is the list of inbounds after the loop.
\<close>

fun set_clients :: "json \<Rightarrow> json list \<Rightarrow> py_error + json list" where
  "set_clients clients [] = Inr []"
| "set_clients clients (inbound # rest) =
     (case py_get inbound ''protocol'' JNull of
        Inl err \<Rightarrow> Inl err
      | Inr p \<Rightarrow>
          if p = JStr ''vless''
          then (case py_getitem inbound ''settings'' of
                  Inl err \<Rightarrow> Inl err
                | Inr settings \<Rightarrow>
                    (case py_setitem settings ''clients'' clients of
                       Inl err \<Rightarrow> Inl err
                     | Inr settings' \<Rightarrow>
                         (case py_setitem inbound ''settings'' settings' of
                            Inl err \<Rightarrow> Inl err
                          | Inr inbound' \<Rightarrow> Inr (inbound' # rest))))
          else (case set_clients clients rest of
                  Inl err \<Rightarrow> Inl err
                | Inr rest' \<Rightarrow> Inr (inbound # rest')))"

text \<open>
  The loop changes the inbound inside \<open>cfg["inbounds"]\<close> in place. Only a list holds
  elements that can be changed: a missing key gives the default \<open>[]\<close>, which is not part
  of \<open>cfg\<close>.
\<close>

fun put_inbounds :: "json \<Rightarrow> json list \<Rightarrow> json" where
  "put_inbounds (JObj kvs) items =
     (case map_of kvs ''inbounds'' of
        Some (JArr old) \<Rightarrow> JObj (AList.update ''inbounds'' (JArr items) kvs)
      | _ \<Rightarrow> JObj kvs)"
| "put_inbounds cfg items = cfg"

definition rebuild_xray_config :: "uuids \<Rightarrow> string set \<Rightarrow> fs \<Rightarrow> (py_error + unit) \<times> fs" where
  "rebuild_xray_config uuids disabled s =
     (case read_config s of
        Inl err \<Rightarrow> (Inl err, s)
      | Inr cfg \<Rightarrow>
          (case py_get cfg ''inbounds'' (JArr []) of
             Inl err \<Rightarrow> (Inl err, s)
           | Inr inbounds \<Rightarrow>
               (case py_iter inbounds of
                  Inl err \<Rightarrow> (Inl err, s)
                | Inr items \<Rightarrow>
                    (case set_clients (JArr (clients_of uuids disabled)) items of
                       Inl err \<Rightarrow> (Inl err, s)
                     | Inr items' \<Rightarrow> (Inr (), write_config (put_inbounds cfg items') s)))))"

section \<open>The endpoints\<close>

text \<open>
  An endpoint is a function from the files before the request to its outcome and the files
  after it. The outcome is the response (status and JSON body), or the exception that
  leaves the handler, which the framework answers with status 500. The handlers are the
  functions behind \<open>require_api_key\<close>; the lock makes each of them one step. The restart
  of the container touches none of the files.
\<close>

type_synonym response = "nat \<times> json"

definition http_status :: "py_error + response \<Rightarrow> nat" where
  "http_status outcome = (case outcome of Inl err \<Rightarrow> 500 | Inr (code, body) \<Rightarrow> code)"

definition error_body :: "string \<Rightarrow> json" where
  "error_body msg = JObj [(''error'', JStr msg)]"

definition message_body :: "string \<Rightarrow> json" where
  "message_body msg = JObj [(''message'', JStr msg)]"

text \<open>
  \<open>data = request.get_json(silent=True) or {}\<close> and
  \<open>username = data.get("username", "").strip()\<close>; the argument is what \<open>get_json\<close> returns.
\<close>

definition request_username :: "json option \<Rightarrow> py_error + string" where
  "request_username body =
     (let data = (case body of
                    None \<Rightarrow> JObj []
                  | Some d \<Rightarrow> if py_truthy d then d else JObj [])
      in case py_get data ''username'' (JStr []) of
           Inl err \<Rightarrow> Inl err
         | Inr (JStr u) \<Rightarrow> Inr (py_strip u)
         | Inr _ \<Rightarrow> Inl AttributeError)"

text \<open>The three checks of \<open>create_user\<close> on the username, in the order of the source.\<close>

definition check_username :: "string \<Rightarrow> response option" where
  "check_username username =
     (if username = [] then Some (400, error_body ''Username is required'')
      else if length username > 32
      then Some (400, error_body ''Username too long (max 32 chars)'')
      else if \<not> py_isalnum (py_remove CHR ''-'' (py_remove CHR ''_'' username))
      then Some (400, error_body ''Username must be alphanumeric (with _ or -)'')
      else None)"

text \<open>The body of the answer to a successful creation; \<open>token\<close> is what
  \<open>create_subscription_file\<close> returned.\<close>

definition created_body :: "env \<Rightarrow> string \<Rightarrow> string \<Rightarrow> string option \<Rightarrow> json" where
  "created_body e username user_uuid token =
     JObj [(''username'', JStr username),
           (''uuid'', JStr user_uuid),
           (''subscription_url'',
              (case token of
                 None \<Rightarrow> JNull
               | Some t \<Rightarrow> if t \<noteq> [] then JStr (sub_url_of e t) else JNull)),
           (''status'', JStr ''active'')]"

text \<open>
  \<open>new_uuid\<close> is \<open>str(uuid.uuid4())\<close> and \<open>new_token\<close> is \<open>secrets.token_hex(16)\<close>.
\<close>

definition create_user ::
  "env \<Rightarrow> string \<Rightarrow> string \<Rightarrow> json option \<Rightarrow> fs \<Rightarrow> (py_error + response) \<times> fs" where
  "create_user e new_uuid new_token body s =
     (case request_username body of
        Inl err \<Rightarrow> (Inl err, s)
      | Inr username \<Rightarrow>
          (case check_username username of
             Some resp \<Rightarrow> (Inr resp, s)
           | None \<Rightarrow>
               (let uuids = read_uuids s
                in if username \<in> fst ` set uuids
                   then (Inr (409, error_body (''User '' @ quoted username @ '' already exists'')), s)
                   else
                     (let uuids' = AList.update username new_uuid uuids;
                          s1 = write_uuids uuids' s
                      in case create_subscription_file e username new_uuid new_token s1 of
                           (Inl err, s2) \<Rightarrow> (Inl err, s2)
                         | (Inr token, s2) \<Rightarrow>
                             (case rebuild_xray_config uuids' (read_disabled s2) s2 of
                                (Inl err, s3) \<Rightarrow> (Inl err, s3)
                              | (Inr u, s3) \<Rightarrow>
                                  (Inr (201, created_body e username new_uuid token), s3))))))"

text \<open>
  \<open>x.get("users", {}).pop(name, None)\<close>, with \<open>x\<close> as it is afterwards: the dict under
  \<open>users\<close> is changed in place; the default \<open>{}\<close> is not part of \<open>x\<close>.
\<close>

definition drop_user :: "string \<Rightarrow> json \<Rightarrow> py_error + json" where
  "drop_user name x =
     (case py_get x ''users'' (JObj []) of
        Inl err \<Rightarrow> Inl err
      | Inr users \<Rightarrow>
          (case py_pop users name of
             Inl err \<Rightarrow> Inl err
           | Inr users' \<Rightarrow>
               (case x of
                  JObj kvs \<Rightarrow>
                    (case map_of kvs ''users'' of
                       None \<Rightarrow> Inr x
                     | Some old \<Rightarrow> Inr (JObj (AList.update ''users'' users' kvs)))
                | _ \<Rightarrow> Inr x)))"

text \<open>The block on \<open>stats.json\<close>: any exception leaves the file as it is.\<close>

definition drop_from_stats :: "string \<Rightarrow> fs \<Rightarrow> fs" where
  "drop_from_stats name s =
     (case stats_file s of
        Json stats \<Rightarrow>
          (case drop_user name stats of
             Inl err \<Rightarrow> s
           | Inr stats' \<Rightarrow> s\<lparr>stats_file := Json stats'\<rparr>)
      | _ \<Rightarrow> s)"

fun drop_entries :: "string \<Rightarrow> json list \<Rightarrow> py_error + json list" where
  "drop_entries name [] = Inr []"
| "drop_entries name (entry # rest) =
     (case drop_user name entry of
        Inl err \<Rightarrow> Inl err
      | Inr entry' \<Rightarrow>
          (case drop_entries name rest of
             Inl err \<Rightarrow> Inl err
           | Inr rest' \<Rightarrow> Inr (entry' # rest')))"

text \<open>The block on \<open>history.json\<close>: any exception leaves the file as it is.\<close>

definition drop_from_history :: "string \<Rightarrow> fs \<Rightarrow> fs" where
  "drop_from_history name s =
     (case history_file s of
        Json history \<Rightarrow>
          (case py_iter history of
             Inl err \<Rightarrow> s
           | Inr entries \<Rightarrow>
               (case drop_entries name entries of
                  Inl err \<Rightarrow> s
                | Inr entries' \<Rightarrow>
                    s\<lparr>history_file :=
                        Json (case history of JArr old \<Rightarrow> JArr entries' | _ \<Rightarrow> history)\<rparr>))
      | _ \<Rightarrow> s)"

definition delete_user :: "string \<Rightarrow> fs \<Rightarrow> (py_error + response) \<times> fs" where
  "delete_user name s =
     (let uuids = read_uuids s
      in if name \<notin> fst ` set uuids
         then (Inr (404, error_body (''User '' @ quoted name @ '' not found'')), s)
         else
           (let s1 = (case find_subscription_token name s of
                        None \<Rightarrow> s
                      | Some token \<Rightarrow>
                          if token \<noteq> [] then s\<lparr>sub_dir := AList.delete token (sub_dir s)\<rparr>
                          else s);
                uuids' = AList.delete name uuids;
                s2 = write_uuids uuids' s1;
                disabled = read_disabled s2 - {name};
                s3 = write_disabled disabled s2
            in case py_pop (read_totals s3) name of
                 Inl err \<Rightarrow> (Inl err, s3)
               | Inr totals \<Rightarrow>
                   (let s4 = write_totals totals s3;
                        s5 = drop_from_stats name s4;
                        s6 = drop_from_history name s5
                    in case rebuild_xray_config uuids' disabled s6 of
                         (Inl err, s7) \<Rightarrow> (Inl err, s7)
                       | (Inr u, s7) \<Rightarrow>
                           (Inr (200, message_body (''User '' @ quoted name @ '' deleted'')),
                            s7))))"

definition disable_user :: "string \<Rightarrow> fs \<Rightarrow> (py_error + response) \<times> fs" where
  "disable_user name s =
     (let uuids = read_uuids s
      in if name \<notin> fst ` set uuids
         then (Inr (404, error_body (''User '' @ quoted name @ '' not found'')), s)
         else
           (let disabled = read_disabled s
            in if name \<in> disabled
               then (Inr (200, message_body (''User '' @ quoted name @ '' is already disabled'')),
                     s)
               else
                 (let disabled' = insert name disabled;
                      s1 = write_disabled disabled' s
                  in case rebuild_xray_config uuids disabled' s1 of
                       (Inl err, s2) \<Rightarrow> (Inl err, s2)
                     | (Inr u, s2) \<Rightarrow>
                         (Inr (200, message_body (''User '' @ quoted name @ '' disabled'')),
                          s2))))"

definition enable_user :: "string \<Rightarrow> fs \<Rightarrow> (py_error + response) \<times> fs" where
  "enable_user name s =
     (let uuids = read_uuids s
      in if name \<notin> fst ` set uuids
         then (Inr (404, error_body (''User '' @ quoted name @ '' not found'')), s)
         else
           (let disabled = read_disabled s
            in if name \<notin> disabled
               then (Inr (200, message_body (''User '' @ quoted name @ '' is already enabled'')),
                     s)
               else
                 (let disabled' = disabled - {name};
                      s1 = write_disabled disabled' s
                  in case rebuild_xray_config uuids disabled' s1 of
                       (Inl err, s2) \<Rightarrow> (Inl err, s2)
                     | (Inr u, s2) \<Rightarrow>
                         (Inr (200, message_body (''User '' @ quoted name @ '' enabled'')),
                          s2))))"

definition zero_record :: json where
  "zero_record = JObj [(''up'', JNum 0), (''dn'', JNum 0), (''last_seen'', JStr [])]"

definition reset_traffic :: "string \<Rightarrow> fs \<Rightarrow> (py_error + response) \<times> fs" where
  "reset_traffic name s =
     (let uuids = read_uuids s
      in if name \<notin> fst ` set uuids
         then (Inr (404, error_body (''User '' @ quoted name @ '' not found'')), s)
         else
           (case py_setitem (read_totals s) name zero_record of
              Inl err \<Rightarrow> (Inl err, s)
            | Inr totals \<Rightarrow>
                (Inr (200, message_body (''Traffic reset for '' @ quoted name)),
                 write_totals totals s)))"

text \<open>The status \<open>list_users\<close> reports for a user.\<close>

definition status_of :: "fs \<Rightarrow> string \<Rightarrow> string" where
  "status_of s name = (if name \<in> read_disabled s then ''disabled'' else ''active'')"

section \<open>Requests\<close>

text \<open>
  The routes of the application. A \<open><name>\<close> segment of a route is a non-empty text
  without a slash.
\<close>

datatype request =
    Create "json option" string string
  | Delete string
  | Disable string
  | Enable string
  | Reset string

fun handle :: "env \<Rightarrow> request \<Rightarrow> fs \<Rightarrow> (py_error + response) \<times> fs" where
  "handle e (Create body new_uuid new_token) s = create_user e new_uuid new_token body s"
| "handle e (Delete name) s = delete_user name s"
| "handle e (Disable name) s = disable_user name s"
| "handle e (Enable name) s = enable_user name s"
| "handle e (Reset name) s = reset_traffic name s"

definition route_name :: "string \<Rightarrow> bool" where
  "route_name name = (name \<noteq> [] \<and> CHR ''/'' \<notin> set name)"

text \<open>The text of a UUID: 36 characters, each a lower-case hexadecimal digit or a hyphen.\<close>

definition uuid_shape :: "string \<Rightarrow> bool" where
  "uuid_shape u = (length u = 36 \<and> list_all (\<lambda>c. c \<in> set ''0123456789abcdef-'') u)"

fun request_ok :: "request \<Rightarrow> bool" where
  "request_ok (Create body new_uuid new_token) = uuid_shape new_uuid"
| "request_ok (Delete name) = route_name name"
| "request_ok (Disable name) = route_name name"
| "request_ok (Enable name) = route_name name"
| "request_ok (Reset name) = route_name name"

text \<open>The files after a sequence of requests, each handled under the lock.\<close>

fun run :: "env \<Rightarrow> request list \<Rightarrow> fs \<Rightarrow> fs" where
  "run e [] s = s"
| "run e (req # reqs) s = run e reqs (snd (handle e req s))"

text \<open>The mutations that end with a rebuild of the configuration.\<close>

fun rebuilds :: "request \<Rightarrow> bool" where
  "rebuilds (Reset name) = False"
| "rebuilds _ = True"

section \<open>Stages of a deletion\<close>

text \<open>
  The files of \<open>delete_user\<close> after the descriptor file, the credential entry and the
  disabled-set entry are removed, and after the ledger, the statistics and the history
  are rewritten.
\<close>

definition tables_removed :: "string \<Rightarrow> fs \<Rightarrow> fs" where
  "tables_removed name s =
     (let s1 = (case find_subscription_token name s of
                  None \<Rightarrow> s
                | Some token \<Rightarrow>
                    if token \<noteq> [] then s\<lparr>sub_dir := AList.delete token (sub_dir s)\<rparr> else s);
          s2 = write_uuids (AList.delete name (read_uuids s)) s1
      in write_disabled (read_disabled s2 - {name}) s2)"

definition records_removed :: "string \<Rightarrow> json \<Rightarrow> fs \<Rightarrow> fs" where
  "records_removed name totals s = drop_from_history name (drop_from_stats name (write_totals totals s))"

section \<open>What the files say\<close>

text \<open>The usernames of the credential table.\<close>

definition usernames :: "fs \<Rightarrow> string set" where
  "usernames s = fst ` set (read_uuids s)"

text \<open>
  The client list of the configuration: the \<open>clients\<close> entry of the settings of the first
  inbound whose protocol is \<open>vless\<close>, the place \<open>rebuild_xray_config\<close> writes.
\<close>

fun first_vless :: "json list \<Rightarrow> json option" where
  "first_vless [] = None"
| "first_vless (JObj kvs # rest) =
     (if map_of kvs ''protocol'' = Some (JStr ''vless'') then Some (JObj kvs)
      else first_vless rest)"
| "first_vless (x # rest) = first_vless rest"

definition vless_inbound :: "json \<Rightarrow> json option" where
  "vless_inbound cfg =
     (case cfg of
        JObj kvs \<Rightarrow>
          (case map_of kvs ''inbounds'' of Some (JArr items) \<Rightarrow> first_vless items | _ \<Rightarrow> None)
      | _ \<Rightarrow> None)"

definition active_clients :: "json \<Rightarrow> json option" where
  "active_clients cfg =
     (case vless_inbound cfg of
        Some (JObj inbound) \<Rightarrow>
          (case map_of inbound ''settings'' of
             Some (JObj settings) \<Rightarrow> map_of settings ''clients''
           | _ \<Rightarrow> None)
      | _ \<Rightarrow> None)"

definition has_vless :: "fs \<Rightarrow> bool" where
  "has_vless s = (case config_file s of Json cfg \<Rightarrow> vless_inbound cfg \<noteq> None | _ \<Rightarrow> False)"

definition active_clients_file :: "fs \<Rightarrow> json option" where
  "active_clients_file s = (case config_file s of Json cfg \<Rightarrow> active_clients cfg | _ \<Rightarrow> None)"

text \<open>
  The client list the specification asks for, in its words: one client record per user of
  the credential table that is not in the disabled set, with the user's identifier, the
  flow-control mode, the username as display label and access level 0.
\<close>

definition spec_active_clients :: "fs \<Rightarrow> json list" where
  "spec_active_clients s =
     [JObj [(''id'', JStr uid), (''flow'', JStr ''xtls-rprx-vision''), (''email'', JStr name),
            (''level'', JNum 0)].
        (name, uid) \<leftarrow> read_uuids s, name \<notin> read_disabled s]"

definition expected_clients :: "fs \<Rightarrow> json" where
  "expected_clients s = JArr (spec_active_clients s)"

text \<open>The request gets past the checks of its handler, so that the handler starts to write.\<close>

fun passes_checks :: "request \<Rightarrow> fs \<Rightarrow> bool" where
  "passes_checks (Create body new_uuid new_token) s =
     (case request_username body of
        Inr username \<Rightarrow> check_username username = None \<and> username \<notin> usernames s
      | Inl err \<Rightarrow> False)"
| "passes_checks (Delete name) s = (name \<in> usernames s)"
| "passes_checks (Disable name) s = (name \<in> usernames s \<and> name \<notin> read_disabled s)"
| "passes_checks (Enable name) s = (name \<in> usernames s \<and> name \<in> read_disabled s)"
| "passes_checks (Reset name) s = (name \<in> usernames s)"


text \<open>The rebuild of the configuration does not raise.\<close>

definition rebuild_ok :: "fs \<Rightarrow> bool" where
  "rebuild_ok s = (fst (rebuild_xray_config [] {} s) = Inr ())"



definition is_object :: "json \<Rightarrow> bool" where
  "is_object x = (case x of JObj kvs \<Rightarrow> True | _ \<Rightarrow> False)"


definition ledger_record :: "fs \<Rightarrow> string \<Rightarrow> json option" where
  "ledger_record s name = (case read_totals s of JObj kvs \<Rightarrow> map_of kvs name | _ \<Rightarrow> None)"




text \<open>The lines \<open>read_disabled\<close> makes its set of.\<close>

definition disabled_lines :: "fs \<Rightarrow> string list" where
  "disabled_lines s =
     (case disabled_file s of None \<Rightarrow> [] | Some text \<Rightarrow> py_splitlines (py_strip text))"

section \<open>Well-formed texts\<close>

text \<open>
  A text is trimmed when \<open>strip\<close> leaves it as it is, and is one line when it has no line
  boundary. An entry of the credential table is well formed when both parts are trimmed
  single lines and the name has no colon: these are the entries \<open>read_uuids\<close> returns and
  the ones that survive writing and reading the file. The disabled-set file is tidy when
  each of its lines is a non-empty trimmed name.
\<close>

definition stripped :: "string \<Rightarrow> bool" where
  "stripped s = (s = [] \<or> (\<not> py_isspace (hd s) \<and> \<not> py_isspace (last s)))"

definition no_lb :: "string \<Rightarrow> bool" where
  "no_lb s = (\<forall>c\<in>set s. \<not> is_linebreak c)"

definition wf_entry :: "string \<times> string \<Rightarrow> bool" where
  "wf_entry e = (stripped (fst e) \<and> stripped (snd e) \<and> no_lb (fst e) \<and> no_lb (snd e)
                 \<and> CHR '':'' \<notin> set (fst e))"

definition wf_uuids :: "uuids \<Rightarrow> bool" where
  "wf_uuids d = (distinct (map fst d) \<and> (\<forall>e\<in>set d. wf_entry e))"

definition uuid_line :: "string \<times> string \<Rightarrow> string" where
  "uuid_line e = fst e @ '':'' @ snd e"

definition plain_names :: "string set \<Rightarrow> bool" where
  "plain_names D = (\<forall>n\<in>D. stripped n \<and> no_lb n)"

definition tidy_disabled :: "fs \<Rightarrow> bool" where
  "tidy_disabled s = (\<forall>n\<in>read_disabled s. n \<noteq> [] \<and> stripped n)"

definition ws_only :: "string \<Rightarrow> bool" where
  "ws_only w = list_all py_isspace w"

definition username_body :: "string \<Rightarrow> json option" where
  "username_body u = Some (JObj [(''username'', JStr u)])"

text \<open>The characters the specification allows in a username.\<close>

definition name_char :: "char \<Rightarrow> bool" where
  "name_char c = (isalnum_char c \<or> c = CHR ''_'' \<or> c = CHR ''-'')"

text \<open>A field of the JSON body of a response.\<close>

definition body_field :: "json \<Rightarrow> string \<Rightarrow> json option" where
  "body_field b k = (case b of JObj kvs \<Rightarrow> map_of kvs k | _ \<Rightarrow> None)"

section \<open>Configurations without reality parameters\<close>

text \<open>
  An inbound carries no reality parameters when it is an object whose \<open>streamSettings\<close> are
  absent or an object whose \<open>realitySettings\<close> are absent or false as a condition (null,
  false, 0, empty). \<open>inbound_list\<close> is the list of inbounds of a configuration that parses
  to an object: empty when there is no \<open>inbounds\<close> entry, undefined when the entry cannot be
  iterated. \<open>settings_error\<close> tells what is wrong with the settings of the first vless inbound:
  nothing when they are an object or when there is no such inbound, \<open>KeyError\<close> when they
  are missing and \<open>TypeError\<close> when they are not an object.
\<close>

definition no_reality :: "json \<Rightarrow> bool" where
  "no_reality inbound =
     (case inbound of
        JObj kvs \<Rightarrow>
          (case map_of kvs ''streamSettings'' of
             None \<Rightarrow> True
           | Some (JObj ss) \<Rightarrow>
               (case map_of ss ''realitySettings'' of None \<Rightarrow> True | Some rs \<Rightarrow> \<not> py_truthy rs)
           | Some _ \<Rightarrow> False)
      | _ \<Rightarrow> False)"

definition inbound_list :: "fs \<Rightarrow> json list option" where
  "inbound_list s =
     (case config_file s of
        Json (JObj kvs) \<Rightarrow>
          (case map_of kvs ''inbounds'' of
             None \<Rightarrow> Some []
           | Some v \<Rightarrow> (case py_iter v of Inr items \<Rightarrow> Some items | Inl err \<Rightarrow> None))
      | _ \<Rightarrow> None)"

definition without_reality :: "fs \<Rightarrow> bool" where
  "without_reality s =
     (case inbound_list s of Some items \<Rightarrow> list_all no_reality items | None \<Rightarrow> False)"

definition settings_error_of :: "json list \<Rightarrow> py_error option" where
  "settings_error_of items =
     (case first_vless items of
        Some (JObj inbound) \<Rightarrow>
          (case map_of inbound ''settings'' of
             None \<Rightarrow> Some KeyError
           | Some (JObj settings) \<Rightarrow> None
           | Some _ \<Rightarrow> Some TypeError)
      | _ \<Rightarrow> None)"

definition settings_error :: "fs \<Rightarrow> py_error option" where
  "settings_error s = (case inbound_list s of Some items \<Rightarrow> settings_error_of items | None \<Rightarrow> None)"

section \<open>What a revocation has to clean\<close>





section \<open>What a handler has written when it comes to the rebuild\<close>





section \<open>Concrete files for the examples\<close>

definition env0 :: env where
  "env0 = \<lparr>DOMAIN = ''vpn.example.org'', SERVER_ADDRESS = ''203.0.113.7'', SUB_PORT = ''8443'',
            REALITY_PUBLIC_KEY = Some ''PUBKEY'', py_format = (\<lambda>v. ''?'')\<rparr>"

definition uuid1 :: string where
  "uuid1 = ''11111111-1111-4111-8111-111111111111''"

definition uuid2 :: string where
  "uuid2 = ''22222222-2222-4222-8222-222222222222''"

definition token1 :: string where
  "token1 = ''000102030405060708090a0b0c0d0e0f''"

definition token2 :: string where
  "token2 = ''f0e0d0c0b0a090807060504030201000''"

text \<open>A configuration with one vless inbound that has reality settings.\<close>

definition cfg_vless :: json where
  "cfg_vless =
     JObj [(''log'', JObj [(''loglevel'', JStr ''warning'')]),
           (''inbounds'',
              JArr [JObj [(''port'', JNum 443), (''protocol'', JStr ''vless''),
                          (''settings'', JObj [(''clients'', JArr []), (''decryption'', JStr ''none'')]),
                          (''streamSettings'',
                             JObj [(''network'', JStr ''tcp''),
                                   (''realitySettings'',
                                      JObj [(''dest'', JStr ''example.com:443''),
                                            (''serverNames'', JArr [JStr ''example.com'']),
                                            (''shortIds'', JArr [JStr ''ab12''])])])]])]"

text \<open>A configuration that parses and has no inbound at all.\<close>

definition cfg_bare :: json where
  "cfg_bare = JObj [(''log'', JObj [(''loglevel'', JStr ''warning'')]), (''inbounds'', JArr [])]"

text \<open>No user yet: the two text files and the monitoring files do not exist.\<close>

definition fresh :: "jfile \<Rightarrow> fs" where
  "fresh cfg = \<lparr>config_file = cfg, uuids_file = None, disabled_file = None, sub_dir = [],
                totals_file = NoFile, stats_file = NoFile, history_file = NoFile\<rparr>"

text \<open>One user, alice, with her descriptor file, a ledger record and a history record.\<close>

definition alice_fs :: fs where
  "alice_fs =
     \<lparr>config_file = Json cfg_vless,
      uuids_file = Some (''alice:'' @ uuid1 @ [CHR 0x0A]),
      disabled_file = Some [],
      sub_dir = [(token1, Some (''vless://'' @ uuid1 @ ''@203.0.113.7:443#alice''))],
      totals_file =
        Json (JObj [(''alice'', JObj [(''up'', JNum 500), (''dn'', JNum 300),
                                     (''last_seen'', JStr ''2024-05-01T10:00:00'')]),
                    (''bob'', JObj [(''up'', JNum 7), (''dn'', JNum 9), (''last_seen'', JStr [])])]),
      stats_file = NoFile,
      history_file =
        Json (JArr [JObj [(''ts'', JNum 1), (''users'', JObj [(''alice'', JNum 12)])]])\<rparr>"

text \<open>A vmess inbound and a vless inbound, neither with reality settings.\<close>

definition cfg_no_reality :: json where
  "cfg_no_reality =
     JObj [(''inbounds'',
              JArr [JObj [(''protocol'', JStr ''vmess''),
                          (''settings'', JObj [(''clients'', JArr [])])],
                    JObj [(''protocol'', JStr ''vless''),
                          (''settings'', JObj [(''clients'', JArr []), (''decryption'', JStr ''none'')]),
                          (''streamSettings'',
                             JObj [(''network'', JStr ''tcp''), (''security'', JStr ''none'')])]])]"

text \<open>A vless inbound with null reality settings and no settings at all.\<close>

definition cfg_no_settings :: json where
  "cfg_no_settings =
     JObj [(''inbounds'',
              JArr [JObj [(''protocol'', JStr ''vless''),
                          (''streamSettings'', JObj [(''realitySettings'', JNull)])]])]"

text \<open>A configuration whose only inbound is a vmess inbound with a client of its own.\<close>

definition cfg_vmess :: json where
  "cfg_vmess =
     JObj [(''inbounds'',
              JArr [JObj [(''port'', JNum 10086), (''protocol'', JStr ''vmess''),
                          (''settings'',
                             JObj [(''clients'', JArr [JObj [(''id'', JStr ''legacy'')]])])]])]"









section \<open>Texts: trimming, lines and the two text files\<close>

lemma alnum_not_space: "isalnum_char c \<Longrightarrow> \<not> py_isspace c"
  by (auto simp: isalnum_char_def py_isspace_def Let_def)

lemma linebreak_space: "is_linebreak c \<Longrightarrow> py_isspace c"
  by (auto simp: is_linebreak_def py_isspace_def Let_def)

lemma linebreak_LF [simp]: "is_linebreak (CHR 0x0A)"
  by (simp add: is_linebreak_def)

lemma linebreak_CR [simp]: "is_linebreak (CHR 0x0D)"
  by (simp add: is_linebreak_def)

lemma colon_not_space [simp]: "\<not> py_isspace CHR '':''"
  by (simp add: py_isspace_def)

lemma colon_not_linebreak [simp]: "\<not> is_linebreak CHR '':''"
  by (simp add: is_linebreak_def)

lemma dropWhile_id: "xs = [] \<or> \<not> P (hd xs) \<Longrightarrow> dropWhile P xs = xs"
  by (cases xs) auto

lemma strip_pad:
  assumes "s \<noteq> []" "\<not> py_isspace (hd s)" "\<not> py_isspace (last s)"
    and "\<forall>c\<in>set w1. py_isspace c" "\<forall>c\<in>set w2. py_isspace c"
  shows "py_strip (w1 @ s @ w2) = s"
proof -
  have a: "dropWhile py_isspace (w1 @ s @ w2) = s @ w2"
    using assms by (simp add: dropWhile_append2 dropWhile_id)
  have "dropWhile py_isspace (rev w2 @ rev s) = dropWhile py_isspace (rev s)"
    by (rule dropWhile_append2) (use assms(5) in auto)
  moreover have "dropWhile py_isspace (rev s) = rev s"
    using assms(1,3) by (intro dropWhile_id) (simp add: hd_rev)
  ultimately have b: "dropWhile py_isspace (rev w2 @ rev s) = rev s" by simp
  show ?thesis by (simp add: py_strip_def a b)
qed

lemma strip_blank: "\<forall>c\<in>set w. py_isspace c \<Longrightarrow> py_strip w = []"
  by (auto simp: py_strip_def dest: set_dropWhileD)

lemma strip_id: "stripped s \<Longrightarrow> py_strip s = s"
proof (cases "s = []")
  case True then show ?thesis by (simp add: py_strip_def)
next
  case False
  assume "stripped s"
  with False strip_pad [of s "[]" "[]"] show ?thesis by (simp add: stripped_def)
qed

lemma last_dropWhile: "dropWhile P xs \<noteq> [] \<Longrightarrow> last (dropWhile P xs) = last xs"
  by (induction xs) (auto split: if_splits)

lemma strip_stripped [simp]: "stripped (py_strip s)"
proof -
  let ?t = "dropWhile py_isspace s"
  let ?r = "dropWhile py_isspace (rev ?t)"
  show ?thesis
  proof (cases "?r = []")
    case True
    then have "py_strip s = []" unfolding py_strip_def by simp
    then show ?thesis by (simp add: stripped_def)
  next
    case False
    have t: "?t \<noteq> []"
    proof
      assume "?t = []"
      then have "?r = []" by (simp del: dropWhile_eq_Nil_conv)
      with False show False by (simp del: dropWhile_eq_Nil_conv)
    qed
    have 1: "\<not> py_isspace (hd ?r)" using False by (rule hd_dropWhile)
    have "last ?r = last (rev ?t)" using False by (rule last_dropWhile)
    then have "last ?r = hd ?t" using t by (simp add: last_rev)
    moreover have "\<not> py_isspace (hd ?t)" using t by (rule hd_dropWhile)
    ultimately have 2: "\<not> py_isspace (last ?r)" by simp
    show ?thesis using False 1 2 by (simp add: stripped_def py_strip_def hd_rev last_rev)
  qed
qed

lemma set_strip: "set (py_strip s) \<subseteq> set s"
  unfolding py_strip_def by (auto dest!: set_dropWhileD)

lemma no_lb_strip: "no_lb s \<Longrightarrow> no_lb (py_strip s)"
  using set_strip by (auto simp: no_lb_def)

lemma splitlines_from_line:
  "no_lb l \<Longrightarrow> splitlines_from cur (l @ rest) = splitlines_from (cur @ l) rest"
proof (induction l arbitrary: cur)
  case Nil then show ?case by simp
next
  case (Cons c l)
  then have c: "\<not> is_linebreak c" and l: "no_lb l" by (auto simp: no_lb_def)
  from c have "c \<noteq> CHR 0x0D" by auto
  with c show ?case using Cons.IH [OF l, of "cur @ [c]"] by simp
qed

lemma splitlines_from_LF:
  "splitlines_from cur (CHR 0x0A # rest) = cur # splitlines_from [] rest"
  by simp

lemma splitlines_join:
  "\<forall>l\<in>set ls. no_lb l \<Longrightarrow> (ls \<noteq> [] \<longrightarrow> last ls \<noteq> []) \<Longrightarrow> py_splitlines (join_nl ls) = ls"
proof (induction ls rule: join_nl.induct)
  case 1 then show ?case by (simp add: py_splitlines_def)
next
  case (2 l)
  then show ?case using splitlines_from_line [of l "[]" "[]"] by (simp add: py_splitlines_def)
next
  case (3 l l' ls)
  then have "py_splitlines (join_nl (l' # ls)) = l' # ls" by simp
  moreover have "no_lb l" using 3 by simp
  ultimately show ?case
    using splitlines_from_line [of l "[]" "CHR 0x0A # join_nl (l' # ls)"]
    by (simp add: py_splitlines_def del: splitlines_from.simps(2) add: splitlines_from_LF)
qed

lemma splitlines_from_no_lb:
  "no_lb cur \<Longrightarrow> l \<in> set (splitlines_from cur s) \<Longrightarrow> no_lb l"
proof (induction cur s rule: splitlines_from.induct)
  case (1 cur) then show ?case by (auto split: if_splits)
next
  case (2 cur c cs)
  have e: "no_lb []" by (simp add: no_lb_def)
  show ?case
  proof (cases "c = CHR 0x0D \<and> cs \<noteq> [] \<and> hd cs = CHR 0x0A")
    case True
    with 2 e show ?thesis by auto
  next
    case False
    show ?thesis
    proof (cases "is_linebreak c")
      case True
      with False 2 e show ?thesis by auto
    next
      case nb: False
      then have "no_lb (cur @ [c])" using 2 by (simp add: no_lb_def)
      with False nb 2 show ?thesis by auto
    qed
  qed
qed

lemma splitlines_no_lb: "l \<in> set (py_splitlines s) \<Longrightarrow> no_lb l"
  unfolding py_splitlines_def by (rule splitlines_from_no_lb [of "[]"]) (simp_all add: no_lb_def)

lemma set_update_sub: "set (AList.update k v al) \<subseteq> insert (k, v) (set al)"
  by (induction al) auto

lemma update_new: "k \<notin> fst ` set al \<Longrightarrow> AList.update k v al = al @ [(k, v)]"
  by (induction al) auto

lemma wf_update: "wf_uuids d \<Longrightarrow> wf_entry (k, v) \<Longrightarrow> wf_uuids (AList.update k v d)"
  using set_update_sub [of k v d] by (auto simp: wf_uuids_def distinct_update)

lemma wf_delete: "wf_uuids d \<Longrightarrow> wf_uuids (AList.delete k d)"
  by (auto simp: wf_uuids_def AList.delete_eq distinct_map_filter)

lemma wf_Nil: "wf_uuids []"
  by (simp add: wf_uuids_def)

lemma split_colon_line:
  "CHR '':'' \<notin> set n \<Longrightarrow> split_colon (n @ CHR '':'' # u) = (n, u)"
  by (induction n) (auto simp: split_colon_def)

lemma no_lb_takeWhile: "no_lb l \<Longrightarrow> no_lb (takeWhile P l)"
  using set_takeWhileD by (fastforce simp: no_lb_def)

lemma no_lb_tl_dropWhile: "no_lb l \<Longrightarrow> no_lb (tl (dropWhile P l))"
proof -
  have "set (tl (dropWhile P l)) \<subseteq> set (dropWhile P l)"
    by (cases "dropWhile P l") (simp_all del: dropWhile_eq_Nil_conv, auto)
  moreover have "set (dropWhile P l) \<subseteq> set l"
    by (auto dest: set_dropWhileD)
  moreover assume "no_lb l"
  ultimately show ?thesis unfolding no_lb_def by blast
qed

lemma wf_entry_parsed:
  assumes "no_lb line"
  shows "wf_entry (py_strip (fst (split_colon line)), py_strip (snd (split_colon line)))"
proof -
  have "CHR '':'' \<notin> set (takeWhile (\<lambda>c. c \<noteq> CHR '':'') line)"
    by (auto dest: set_takeWhileD)
  then have "CHR '':'' \<notin> set (py_strip (takeWhile (\<lambda>c. c \<noteq> CHR '':'') line))"
    using set_strip by blast
  then show ?thesis
    using assms
    by (simp add: wf_entry_def split_colon_def no_lb_strip no_lb_takeWhile no_lb_tl_dropWhile)
qed

lemma fold_parse_wf:
  "wf_uuids acc \<Longrightarrow> \<forall>l\<in>set ls. no_lb l \<Longrightarrow>
   wf_uuids (fold (\<lambda>line result.
                  if CHR '':'' \<in> set line
                  then (case split_colon line of
                          (name, uid) \<Rightarrow> AList.update (py_strip name) (py_strip uid) result)
                  else result) ls acc)"
proof (induction ls arbitrary: acc)
  case Nil then show ?case by simp
next
  case (Cons l ls)
  have "wf_uuids (AList.update (py_strip (fst (split_colon l))) (py_strip (snd (split_colon l))) acc)"
    using Cons.prems by (intro wf_update wf_entry_parsed) simp_all
  with Cons show ?case by (simp add: case_prod_beta)
qed

lemma read_uuids_wf: "wf_uuids (read_uuids s)"
  unfolding read_uuids_def
  by (auto split: option.splits intro!: fold_parse_wf wf_Nil dest: splitlines_no_lb)

lemma fold_parse_lines:
  "distinct (map fst (acc @ d)) \<Longrightarrow> \<forall>e\<in>set d. wf_entry e \<Longrightarrow>
   fold (\<lambda>line result.
                  if CHR '':'' \<in> set line
                  then (case split_colon line of
                          (name, uid) \<Rightarrow> AList.update (py_strip name) (py_strip uid) result)
                  else result) (map uuid_line d) acc = acc @ d"
proof (induction d arbitrary: acc)
  case Nil then show ?case by simp
next
  case (Cons e d)
  obtain n u where e: "e = (n, u)" by (cases e)
  have w: "wf_entry (n, u)" using Cons.prems e by simp
  then have sc: "split_colon (uuid_line e) = (n, u)"
    using split_colon_line [of n u] by (simp add: uuid_line_def e wf_entry_def)
  have new: "n \<notin> fst ` set acc" using Cons.prems e by auto
  have step: "AList.update (py_strip n) (py_strip u) acc = acc @ [(n, u)]"
    using w new by (simp add: wf_entry_def strip_id update_new)
  have "distinct (map fst ((acc @ [e]) @ d))" using Cons.prems by simp
  then have "fold (\<lambda>line result.
                  if CHR '':'' \<in> set line
                  then (case split_colon line of
                          (name, uid) \<Rightarrow> AList.update (py_strip name) (py_strip uid) result)
                  else result) (map uuid_line d) (acc @ [e]) = (acc @ [e]) @ d"
    using Cons.prems by (intro Cons.IH) simp_all
  moreover have "CHR '':'' \<in> set (uuid_line e)" by (simp add: uuid_line_def)
  ultimately show ?case using sc step e by simp
qed

lemma join_nl_nonempty: "ls \<noteq> [] \<Longrightarrow> [] \<notin> set ls \<Longrightarrow> join_nl ls \<noteq> []"
  by (induction ls rule: join_nl.induct) auto

lemma hd_join_nl: "ls \<noteq> [] \<Longrightarrow> hd ls \<noteq> [] \<Longrightarrow> hd (join_nl ls) = hd (hd ls)"
  by (induction ls rule: join_nl.induct) auto

lemma join_nl_nonempty_last: "ls \<noteq> [] \<Longrightarrow> last ls \<noteq> [] \<Longrightarrow> join_nl ls \<noteq> []"
  by (induction ls rule: join_nl.induct) auto

lemma last_join_nl: "ls \<noteq> [] \<Longrightarrow> last ls \<noteq> [] \<Longrightarrow> last (join_nl ls) = last (last ls)"
  by (induction ls rule: join_nl.induct) (auto simp: join_nl_nonempty_last)

lemma uuid_line_props:
  assumes "wf_entry e"
  shows "uuid_line e \<noteq> []" "\<not> py_isspace (hd (uuid_line e))"
    "\<not> py_isspace (last (uuid_line e))" "no_lb (uuid_line e)"
proof -
  obtain n u where e: "e = (n, u)" by (cases e)
  show "uuid_line e \<noteq> []" by (simp add: uuid_line_def)
  show "\<not> py_isspace (hd (uuid_line e))"
    using assms by (cases n) (auto simp: uuid_line_def e wf_entry_def stripped_def)
  show "\<not> py_isspace (last (uuid_line e))"
    using assms by (cases "u = []") (auto simp: uuid_line_def e wf_entry_def stripped_def)
  show "no_lb (uuid_line e)"
    using assms by (auto simp: uuid_line_def e wf_entry_def no_lb_def)
qed

lemma strip_text_lines:
  assumes "ls \<noteq> []" "[] \<notin> set ls" "\<not> py_isspace (hd (hd ls))" "\<not> py_isspace (last (last ls))"
  shows "py_strip (join_nl ls @ [CHR 0x0A]) = join_nl ls"
proof -
  have "hd ls \<noteq> []" "last ls \<noteq> []"
    using assms(1,2) hd_in_set [of ls] last_in_set [of ls] by metis+
  then have "\<not> py_isspace (hd (join_nl ls))" "\<not> py_isspace (last (join_nl ls))"
    using assms by (simp_all add: hd_join_nl last_join_nl)
  moreover have "join_nl ls \<noteq> []" using assms by (simp add: join_nl_nonempty)
  moreover have "py_isspace (CHR 0x0A)" by (simp add: py_isspace_def)
  ultimately show ?thesis using strip_pad [of "join_nl ls" "[]" "[CHR 0x0A]"] by simp
qed

lemma uuids_text_lines:
  assumes "\<forall>e\<in>set d. wf_entry e"
  shows "py_splitlines (py_strip (uuids_text d)) = map uuid_line d"
proof (cases "d = []")
  case True
  then show ?thesis by (simp add: uuids_text_def py_strip_def py_splitlines_def)
next
  case False
  let ?ls = "map uuid_line d"
  have "(\<lambda>(name, uid). name @ '':'' @ uid) = uuid_line"
    by (auto simp: uuid_line_def fun_eq_iff)
  then have tx: "uuids_text d = join_nl ?ls @ [CHR 0x0A]"
    using False by (simp add: uuids_text_def Let_def)
  have ne: "?ls \<noteq> []" using False by simp
  have nn: "[] \<notin> set ?ls" by (auto simp: uuid_line_def)
  have hh: "\<not> py_isspace (hd (hd ?ls))"
    using False assms uuid_line_props(2) [of "hd d"] by (simp add: hd_map)
  have ll: "\<not> py_isspace (last (last ?ls))"
    using False assms uuid_line_props(3) [of "last d"] by (simp add: last_map)
  have st: "py_strip (uuids_text d) = join_nl ?ls"
    unfolding tx using ne nn hh ll by (rule strip_text_lines)
  have "\<forall>l\<in>set ?ls. no_lb l" using assms uuid_line_props(4) by auto
  moreover have "last ?ls \<noteq> []" using nn ne last_in_set by metis
  ultimately show ?thesis unfolding st by (intro splitlines_join) simp_all
qed

lemma read_write_uuids: "wf_uuids d \<Longrightarrow> read_uuids (write_uuids d s) = d"
  using fold_parse_lines [of "[]" d] uuids_text_lines [of d]
  by (simp add: read_uuids_def write_uuids_def wf_uuids_def)

lemma sorted_distinct_Nil_first:
  assumes "sorted ls" "distinct ls" "[] \<in> set ls"
  shows "\<exists>xs. ls = [] # xs \<and> [] \<notin> set xs"
proof (cases ls)
  case Nil with assms show ?thesis by simp
next
  case (Cons x xs)
  have "x = []"
  proof (rule ccontr)
    assume "x \<noteq> []"
    with assms Cons have "[] \<in> set xs" by simp
    with assms(1) Cons have "x \<le> []" by auto
    with \<open>x \<noteq> []\<close> show False by simp
  qed
  with assms(2) Cons show ?thesis by simp
qed

lemma lines_text_roundtrip:
  assumes "ls \<noteq> []" "[] \<notin> set ls" "\<forall>l\<in>set ls. stripped l \<and> no_lb l"
    and "\<forall>c\<in>set w. py_isspace c"
  shows "py_splitlines (py_strip (w @ join_nl ls @ [CHR 0x0A])) = ls"
proof -
  have ne: "hd ls \<noteq> []" "last ls \<noteq> []"
    using assms(1,2) hd_in_set [of ls] last_in_set [of ls] by metis+
  have "stripped (hd ls)" "stripped (last ls)" using assms(1,3) by simp_all
  then have "\<not> py_isspace (hd (hd ls))" "\<not> py_isspace (last (last ls))"
    using ne by (simp_all add: stripped_def)
  then have "\<not> py_isspace (hd (join_nl ls))" "\<not> py_isspace (last (join_nl ls))"
    using assms(1) ne by (simp_all add: hd_join_nl last_join_nl)
  moreover have "join_nl ls \<noteq> []" using assms by (simp add: join_nl_nonempty)
  moreover have "\<forall>c\<in>set [CHR 0x0A]. py_isspace c" by (simp add: py_isspace_def)
  ultimately have "py_strip (w @ join_nl ls @ [CHR 0x0A]) = join_nl ls"
    using assms(4) by (intro strip_pad)
  moreover have "py_splitlines (join_nl ls) = ls"
    using assms(3) ne(2) by (intro splitlines_join) simp_all
  ultimately show ?thesis by simp
qed

lemma disabled_text_lines_list:
  assumes "finite D" "plain_names D"
  shows "py_splitlines (py_strip (disabled_text D)) = filter (\<lambda>l. l \<noteq> []) (sorted_list_of_set D)"
proof (cases "D = {}")
  case True
  then show ?thesis by (simp add: disabled_text_def py_strip_def py_splitlines_def)
next
  case False
  let ?ls = "sorted_list_of_set D"
  have tx: "disabled_text D = join_nl ?ls @ [CHR 0x0A]"
    using False by (simp add: disabled_text_def)
  have set_ls: "set ?ls = D" using assms(1) by simp
  have pl: "\<forall>l\<in>set ?ls. stripped l \<and> no_lb l"
    using assms by (simp add: plain_names_def)
  show ?thesis
  proof (cases "[] \<in> D")
    case no: False
    have "?ls \<noteq> []" using False assms(1) by simp
    moreover have nn: "[] \<notin> set ?ls" using no set_ls by simp
    ultimately have "py_splitlines (py_strip ([] @ join_nl ?ls @ [CHR 0x0A])) = ?ls"
      using pl by (intro lines_text_roundtrip) simp_all
    moreover have "filter (\<lambda>l. l \<noteq> []) ?ls = ?ls"
      using nn by (intro filter_True) auto
    ultimately show ?thesis by (simp add: tx)
  next
    case True
    then have "[] \<in> set ?ls" using set_ls by simp
    then obtain xs where xs: "?ls = [] # xs" "[] \<notin> set xs"
      using sorted_distinct_Nil_first [of ?ls] by auto
    have fl: "filter (\<lambda>l. l \<noteq> []) ?ls = xs"
      unfolding xs(1) using xs(2) by (simp add: filter_id_conv) auto
    show ?thesis
    proof (cases "xs = []")
      case True
      then have "disabled_text D = [CHR 0x0A]" using tx xs by simp
      moreover have "py_strip [CHR 0x0A] = []" by (simp add: py_strip_def py_isspace_def)
      ultimately show ?thesis unfolding fl using True by (simp add: py_splitlines_def)
    next
      case ne: False
      then have "join_nl ?ls = [CHR 0x0A] @ join_nl xs"
        unfolding xs by (cases xs) simp_all
      then have tx': "disabled_text D = [CHR 0x0A] @ join_nl xs @ [CHR 0x0A]"
        using tx by simp
      have "\<forall>l\<in>set xs. stripped l \<and> no_lb l" using pl xs by simp
      moreover have "\<forall>c\<in>set [CHR 0x0A]. py_isspace c" by (simp add: py_isspace_def)
      ultimately have "py_splitlines (py_strip ([CHR 0x0A] @ join_nl xs @ [CHR 0x0A])) = xs"
        using ne xs(2) by (intro lines_text_roundtrip)
      then show ?thesis unfolding fl by (simp add: tx')
    qed
  qed
qed

lemma disabled_text_lines:
  assumes "finite D" "plain_names D"
  shows "set (py_splitlines (py_strip (disabled_text D))) = D - {[]}"
  unfolding disabled_text_lines_list [OF assms] using assms(1) by auto

lemma finite_read_disabled [simp]: "finite (read_disabled s)"
  by (simp add: read_disabled_def split: option.splits)

lemma read_write_disabled:
  "finite D \<Longrightarrow> plain_names D \<Longrightarrow> read_disabled (write_disabled D s) = D - {[]}"
  by (simp add: read_disabled_def write_disabled_def disabled_text_lines)

lemma read_disabled_no_lb: "n \<in> read_disabled s \<Longrightarrow> no_lb n"
  by (auto simp: read_disabled_def split: option.splits dest: splitlines_no_lb)

section \<open>Steps on the files\<close>

subsection \<open>Which file each step touches\<close>

lemma read_uuids_cong: "uuids_file s' = uuids_file s \<Longrightarrow> read_uuids s' = read_uuids s"
  by (simp add: read_uuids_def)

lemma read_disabled_cong: "disabled_file s' = disabled_file s \<Longrightarrow> read_disabled s' = read_disabled s"
  by (simp add: read_disabled_def)

lemma read_config_cong: "config_file s' = config_file s \<Longrightarrow> read_config s' = read_config s"
  by (simp add: read_config_def)

lemma read_totals_cong: "totals_file s' = totals_file s \<Longrightarrow> read_totals s' = read_totals s"
  by (simp add: read_totals_def)

lemma write_uuids_fields [simp]:
  "config_file (write_uuids d s) = config_file s"
  "disabled_file (write_uuids d s) = disabled_file s"
  "sub_dir (write_uuids d s) = sub_dir s"
  "totals_file (write_uuids d s) = totals_file s"
  "stats_file (write_uuids d s) = stats_file s"
  "history_file (write_uuids d s) = history_file s"
  by (simp_all add: write_uuids_def)

lemma write_disabled_fields [simp]:
  "config_file (write_disabled D s) = config_file s"
  "uuids_file (write_disabled D s) = uuids_file s"
  "sub_dir (write_disabled D s) = sub_dir s"
  "totals_file (write_disabled D s) = totals_file s"
  "stats_file (write_disabled D s) = stats_file s"
  "history_file (write_disabled D s) = history_file s"
  by (simp_all add: write_disabled_def)

lemma write_totals_fields [simp]:
  "config_file (write_totals t s) = config_file s"
  "uuids_file (write_totals t s) = uuids_file s"
  "disabled_file (write_totals t s) = disabled_file s"
  "sub_dir (write_totals t s) = sub_dir s"
  "stats_file (write_totals t s) = stats_file s"
  "history_file (write_totals t s) = history_file s"
  "totals_file (write_totals t s) = Json t"
  by (simp_all add: write_totals_def)

lemma write_config_fields [simp]:
  "uuids_file (write_config c s) = uuids_file s"
  "disabled_file (write_config c s) = disabled_file s"
  "sub_dir (write_config c s) = sub_dir s"
  "totals_file (write_config c s) = totals_file s"
  "stats_file (write_config c s) = stats_file s"
  "history_file (write_config c s) = history_file s"
  "config_file (write_config c s) = Json c"
  by (simp_all add: write_config_def)

lemma drop_from_stats_fields [simp]:
  "config_file (drop_from_stats n s) = config_file s"
  "uuids_file (drop_from_stats n s) = uuids_file s"
  "disabled_file (drop_from_stats n s) = disabled_file s"
  "sub_dir (drop_from_stats n s) = sub_dir s"
  "totals_file (drop_from_stats n s) = totals_file s"
  "history_file (drop_from_stats n s) = history_file s"
  by (simp_all add: drop_from_stats_def split: jfile.splits sum.splits)

lemma drop_from_history_fields [simp]:
  "config_file (drop_from_history n s) = config_file s"
  "uuids_file (drop_from_history n s) = uuids_file s"
  "disabled_file (drop_from_history n s) = disabled_file s"
  "sub_dir (drop_from_history n s) = sub_dir s"
  "totals_file (drop_from_history n s) = totals_file s"
  "stats_file (drop_from_history n s) = stats_file s"
  by (simp_all add: drop_from_history_def split: jfile.splits sum.splits)

lemma rebuild_fields:
  assumes "rebuild_xray_config u d s = (r, s')"
  shows "uuids_file s' = uuids_file s" "disabled_file s' = disabled_file s"
    "sub_dir s' = sub_dir s" "totals_file s' = totals_file s"
    "stats_file s' = stats_file s" "history_file s' = history_file s"
  using assms by (auto simp: rebuild_xray_config_def split: sum.splits)

lemma rebuild_raises: "rebuild_xray_config u d s = (Inl err, s') \<Longrightarrow> s' = s"
  by (auto simp: rebuild_xray_config_def split: sum.splits)


lemma subscription_fields:
  assumes "create_subscription_file e n u t s = (r, s')"
  shows "uuids_file s' = uuids_file s" "disabled_file s' = disabled_file s"
    "config_file s' = config_file s" "totals_file s' = totals_file s"
    "stats_file s' = stats_file s" "history_file s' = history_file s"
  using assms by (auto simp: create_subscription_file_def split: sum.splits option.splits if_splits)

lemma build_vless_link_cong:
  "config_file s' = config_file s \<Longrightarrow> build_vless_link e n u s' = build_vless_link e n u s"
  by (simp add: build_vless_link_def read_config_def)


subsection \<open>The loop that sets the client list\<close>


lemma set_clients_vless:
  "set_clients c items = Inr items' \<Longrightarrow> first_vless items \<noteq> None \<Longrightarrow>
   \<exists>inb st. first_vless items' = Some (JObj inb) \<and> map_of inb ''settings'' = Some (JObj st)
            \<and> map_of st ''clients'' = Some c"
proof (induction items arbitrary: items')
  case Nil then show ?case by simp
next
  case (Cons x items)
  from Cons.prems(1) obtain kvs where x: "x = JObj kvs"
    by (cases x) (auto split: sum.splits)
  show ?case
  proof (cases "map_of kvs ''protocol'' = Some (JStr ''vless'')")
    case True
    with Cons.prems(1) x obtain sv sv' where sv: "map_of kvs ''settings'' = Some sv"
      and set: "py_setitem sv ''clients'' c = Inr sv'"
      and it: "items' = JObj (AList.update ''settings'' sv' kvs) # items"
      by (auto split: option.splits sum.splits)
    from set obtain st where "sv = JObj st" "sv' = JObj (AList.update ''clients'' c st)"
      by (cases sv) auto
    with sv it have st: "map_of kvs ''settings'' = Some (JObj st)"
      and items': "items' = JObj (AList.update ''settings'' (JObj (AList.update ''clients'' c st)) kvs) # items"
      by simp_all
    show ?thesis using True by (simp add: items' update_conv')
  next
    case False
    then have p: "(case map_of kvs ''protocol'' of None \<Rightarrow> JNull | Some v \<Rightarrow> v) \<noteq> JStr ''vless''"
      by (auto split: option.splits)
    with Cons.prems(1) x obtain rest' where r: "set_clients c items = Inr rest'" and i: "items' = x # rest'"
      by (auto split: sum.splits)
    from Cons.prems(2) x False have "first_vless items \<noteq> None" by simp
    from Cons.IH [OF r this] show ?thesis using i x False by simp
  qed
qed

lemma rebuild_clients:
  assumes "rebuild_xray_config u d s = (Inr x, s')" "has_vless s"
  shows "active_clients_file s' = Some (JArr (clients_of u d))"
proof -
  from assms(2) obtain kvs items where cfg: "config_file s = Json (JObj kvs)"
    and inb: "map_of kvs ''inbounds'' = Some (JArr items)" and fv: "first_vless items \<noteq> None"
    by (auto simp: has_vless_def vless_inbound_def split: jfile.splits json.splits option.splits)
  from assms(1) cfg inb obtain items' where sc: "set_clients (JArr (clients_of u d)) items = Inr items'"
    and s': "s' = write_config (JObj (AList.update ''inbounds'' (JArr items') kvs)) s"
    by (auto simp: rebuild_xray_config_def read_config_def split: sum.splits)
  from set_clients_vless [OF sc fv] show ?thesis
    by (auto simp: s' active_clients_file_def active_clients_def vless_inbound_def update_conv')
qed


lemma read_uuids_frame [simp]:
  "read_uuids (write_disabled D s) = read_uuids s"
  "read_uuids (write_config c s) = read_uuids s"
  "read_uuids (write_totals t s) = read_uuids s"
  "read_uuids (drop_from_stats n s) = read_uuids s"
  "read_uuids (drop_from_history n s) = read_uuids s"
  "read_uuids (s\<lparr>sub_dir := sd\<rparr>) = read_uuids s"
  by (simp_all add: read_uuids_def)

lemma read_disabled_frame [simp]:
  "read_disabled (write_uuids d s) = read_disabled s"
  "read_disabled (write_config c s) = read_disabled s"
  "read_disabled (write_totals t s) = read_disabled s"
  "read_disabled (drop_from_stats n s) = read_disabled s"
  "read_disabled (drop_from_history n s) = read_disabled s"
  "read_disabled (s\<lparr>sub_dir := sd\<rparr>) = read_disabled s"
  by (simp_all add: read_disabled_def)

lemma read_config_frame [simp]:
  "read_config (write_uuids d s) = read_config s"
  "read_config (write_disabled D s) = read_config s"
  "read_config (write_totals t s) = read_config s"
  "read_config (drop_from_stats n s) = read_config s"
  "read_config (drop_from_history n s) = read_config s"
  "read_config (s\<lparr>sub_dir := sd\<rparr>) = read_config s"
  by (simp_all add: read_config_def)

lemma read_totals_frame [simp]:
  "read_totals (write_uuids d s) = read_totals s"
  "read_totals (write_disabled D s) = read_totals s"
  "read_totals (write_config c s) = read_totals s"
  "read_totals (drop_from_stats n s) = read_totals s"
  "read_totals (drop_from_history n s) = read_totals s"
  "read_totals (s\<lparr>sub_dir := sd\<rparr>) = read_totals s"
  "read_totals (write_totals t s) = t"
  by (simp_all add: read_totals_def)

lemma usernames_frame [simp]:
  "usernames (write_disabled D s) = usernames s"
  "usernames (write_config c s) = usernames s"
  "usernames (write_totals t s) = usernames s"
  "usernames (drop_from_stats n s) = usernames s"
  "usernames (drop_from_history n s) = usernames s"
  "usernames (s\<lparr>sub_dir := sd\<rparr>) = usernames s"
  by (simp_all add: usernames_def)

subsection \<open>The endpoints, case by case\<close>

lemma rebuild_reads:
  assumes "rebuild_xray_config u d s = (r, s')"
  shows "read_uuids s' = read_uuids s" "read_disabled s' = read_disabled s"
    "read_totals s' = read_totals s" "usernames s' = usernames s"
  using rebuild_fields [OF assms]
  by (simp_all add: read_uuids_def read_disabled_def read_totals_def usernames_def)

lemma subscription_reads:
  assumes "create_subscription_file e n u t s = (r, s')"
  shows "read_uuids s' = read_uuids s" "read_disabled s' = read_disabled s"
    "read_totals s' = read_totals s" "usernames s' = usernames s" "read_config s' = read_config s"
  using subscription_fields [OF assms]
  by (simp_all add: read_uuids_def read_disabled_def read_totals_def usernames_def read_config_def)

lemma disable_missing:
  "name \<notin> usernames s \<Longrightarrow>
   disable_user name s = (Inr (404, error_body (''User '' @ quoted name @ '' not found'')), s)"
  by (simp add: disable_user_def usernames_def)

lemma disable_already:
  "name \<in> usernames s \<Longrightarrow> name \<in> read_disabled s \<Longrightarrow>
   disable_user name s =
     (Inr (200, message_body (''User '' @ quoted name @ '' is already disabled'')), s)"
  by (simp add: disable_user_def usernames_def)

lemma disable_fresh:
  "name \<in> usernames s \<Longrightarrow> name \<notin> read_disabled s \<Longrightarrow>
   disable_user name s =
        (case rebuild_xray_config (read_uuids s) (insert name (read_disabled s))
                (write_disabled (insert name (read_disabled s)) s) of
           (Inl err, s2) \<Rightarrow> (Inl err, s2)
         | (Inr u, s2) \<Rightarrow> (Inr (200, message_body (''User '' @ quoted name @ '' disabled'')), s2))"
  by (simp add: disable_user_def usernames_def Let_def)

lemma disable_user_cases [consumes 1, case_names missing already changed failed]:
  assumes "disable_user name s = (r, s')"
  obtains "name \<notin> usernames s"
      "r = Inr (404, error_body (''User '' @ quoted name @ '' not found''))" "s' = s"
  | "name \<in> usernames s" "name \<in> read_disabled s"
      "r = Inr (200, message_body (''User '' @ quoted name @ '' is already disabled''))" "s' = s"
  | x where "name \<in> usernames s" "name \<notin> read_disabled s"
      "rebuild_xray_config (read_uuids s) (insert name (read_disabled s))
         (write_disabled (insert name (read_disabled s)) s) = (Inr x, s')"
      "r = Inr (200, message_body (''User '' @ quoted name @ '' disabled''))"
  | err where "name \<in> usernames s" "name \<notin> read_disabled s"
      "rebuild_xray_config (read_uuids s) (insert name (read_disabled s))
         (write_disabled (insert name (read_disabled s)) s) = (Inl err, s')"
      "r = Inl err" "s' = write_disabled (insert name (read_disabled s)) s"
proof (cases "name \<in> usernames s")
  case False
  from assms disable_missing [OF False]
  have "r = Inr (404, error_body (''User '' @ quoted name @ '' not found''))" "s' = s"
    by simp_all
  with False show ?thesis by (rule that(1))
next
  case known: True
  show ?thesis
  proof (cases "name \<in> read_disabled s")
    case True
    from assms disable_already [OF known True]
    have "r = Inr (200, message_body (''User '' @ quoted name @ '' is already disabled''))" "s' = s"
      by simp_all
    with known True show ?thesis by (rule that(2))
  next
    case False
    note eq = disable_fresh [OF known False]
    obtain rr s2 where rb: "rebuild_xray_config (read_uuids s) (insert name (read_disabled s))
         (write_disabled (insert name (read_disabled s)) s) = (rr, s2)" by (rule prod.exhaust)
    show ?thesis
    proof (cases rr)
      case (Inl err)
      from assms have "r = Inl err" "s' = s2" unfolding eq rb Inl by simp_all
      moreover from rb Inl have "s2 = write_disabled (insert name (read_disabled s)) s"
        by (simp add: rebuild_raises)
      ultimately have "rebuild_xray_config (read_uuids s) (insert name (read_disabled s))
         (write_disabled (insert name (read_disabled s)) s) = (Inl err, s')"
         "r = Inl err" "s' = write_disabled (insert name (read_disabled s)) s"
        using rb Inl by simp_all
      with known False show ?thesis by (rule that(4))
    next
      case (Inr x)
      from assms have "r = Inr (200, message_body (''User '' @ quoted name @ '' disabled''))" "s' = s2"
        unfolding eq rb Inr by simp_all
      then have "rebuild_xray_config (read_uuids s) (insert name (read_disabled s))
         (write_disabled (insert name (read_disabled s)) s) = (Inr x, s')"
         "r = Inr (200, message_body (''User '' @ quoted name @ '' disabled''))"
        using rb Inr by simp_all
      with known False show ?thesis by (rule that(3))
    qed
  qed
qed

lemma enable_missing:
  "name \<notin> usernames s \<Longrightarrow>
   enable_user name s = (Inr (404, error_body (''User '' @ quoted name @ '' not found'')), s)"
  by (simp add: enable_user_def usernames_def)

lemma enable_already:
  "name \<in> usernames s \<Longrightarrow> name \<notin> read_disabled s \<Longrightarrow>
   enable_user name s =
     (Inr (200, message_body (''User '' @ quoted name @ '' is already enabled'')), s)"
  by (simp add: enable_user_def usernames_def)

lemma enable_fresh:
  "name \<in> usernames s \<Longrightarrow> name \<in> read_disabled s \<Longrightarrow>
   enable_user name s =
        (case rebuild_xray_config (read_uuids s) (read_disabled s - {name})
                (write_disabled (read_disabled s - {name}) s) of
           (Inl err, s2) \<Rightarrow> (Inl err, s2)
         | (Inr u, s2) \<Rightarrow> (Inr (200, message_body (''User '' @ quoted name @ '' enabled'')), s2))"
  by (simp add: enable_user_def usernames_def Let_def)

lemma enable_user_cases [consumes 1, case_names missing already changed failed]:
  assumes "enable_user name s = (r, s')"
  obtains "name \<notin> usernames s"
      "r = Inr (404, error_body (''User '' @ quoted name @ '' not found''))" "s' = s"
  | "name \<in> usernames s" "name \<notin> read_disabled s"
      "r = Inr (200, message_body (''User '' @ quoted name @ '' is already enabled''))" "s' = s"
  | x where "name \<in> usernames s" "name \<in> read_disabled s"
      "rebuild_xray_config (read_uuids s) (read_disabled s - {name})
         (write_disabled (read_disabled s - {name}) s) = (Inr x, s')"
      "r = Inr (200, message_body (''User '' @ quoted name @ '' enabled''))"
  | err where "name \<in> usernames s" "name \<in> read_disabled s"
      "rebuild_xray_config (read_uuids s) (read_disabled s - {name})
         (write_disabled (read_disabled s - {name}) s) = (Inl err, s')"
      "r = Inl err" "s' = write_disabled (read_disabled s - {name}) s"
proof (cases "name \<in> usernames s")
  case False
  from assms enable_missing [OF False]
  have "r = Inr (404, error_body (''User '' @ quoted name @ '' not found''))" "s' = s"
    by simp_all
  with False show ?thesis by (rule that(1))
next
  case known: True
  show ?thesis
  proof (cases "name \<in> read_disabled s")
    case False
    from assms enable_already [OF known False]
    have "r = Inr (200, message_body (''User '' @ quoted name @ '' is already enabled''))" "s' = s"
      by simp_all
    with known False show ?thesis by (rule that(2))
  next
    case True
    note eq = enable_fresh [OF known True]
    obtain rr s2 where rb: "rebuild_xray_config (read_uuids s) (read_disabled s - {name})
         (write_disabled (read_disabled s - {name}) s) = (rr, s2)" by (rule prod.exhaust)
    show ?thesis
    proof (cases rr)
      case (Inl err)
      from assms have "r = Inl err" "s' = s2" unfolding eq rb Inl by simp_all
      moreover from rb Inl have "s2 = write_disabled (read_disabled s - {name}) s"
        by (simp add: rebuild_raises)
      ultimately have "rebuild_xray_config (read_uuids s) (read_disabled s - {name})
         (write_disabled (read_disabled s - {name}) s) = (Inl err, s')"
         "r = Inl err" "s' = write_disabled (read_disabled s - {name}) s"
        using rb Inl by simp_all
      with known True show ?thesis by (rule that(4))
    next
      case (Inr x)
      from assms have "r = Inr (200, message_body (''User '' @ quoted name @ '' enabled''))" "s' = s2"
        unfolding eq rb Inr by simp_all
      then have "rebuild_xray_config (read_uuids s) (read_disabled s - {name})
         (write_disabled (read_disabled s - {name}) s) = (Inr x, s')"
         "r = Inr (200, message_body (''User '' @ quoted name @ '' enabled''))"
        using rb Inr by simp_all
      with known True show ?thesis by (rule that(3))
    qed
  qed
qed

lemma create_bad_request:
  "request_username body = Inl err \<Longrightarrow> create_user e nu nt body s = (Inl err, s)"
  by (simp add: create_user_def)

lemma create_invalid:
  "request_username body = Inr n \<Longrightarrow> check_username n = Some resp \<Longrightarrow>
   create_user e nu nt body s = (Inr resp, s)"
  by (simp add: create_user_def)

lemma create_conflict:
  "request_username body = Inr n \<Longrightarrow> check_username n = None \<Longrightarrow> n \<in> usernames s \<Longrightarrow>
   create_user e nu nt body s =
     (Inr (409, error_body (''User '' @ quoted n @ '' already exists'')), s)"
  by (simp add: create_user_def usernames_def)

lemma create_fresh:
  "request_username body = Inr n \<Longrightarrow> check_username n = None \<Longrightarrow> n \<notin> usernames s \<Longrightarrow>
   create_user e nu nt body s =
     (case create_subscription_file e n nu nt (write_uuids (AList.update n nu (read_uuids s)) s) of
        (Inl err, s2) \<Rightarrow> (Inl err, s2)
      | (Inr token, s2) \<Rightarrow>
          (case rebuild_xray_config (AList.update n nu (read_uuids s)) (read_disabled s2) s2 of
             (Inl err, s3) \<Rightarrow> (Inl err, s3)
           | (Inr u, s3) \<Rightarrow> (Inr (201, created_body e n nu token), s3)))"
  by (simp add: create_user_def usernames_def Let_def)

lemma delete_missing:
  "name \<notin> usernames s \<Longrightarrow>
   delete_user name s = (Inr (404, error_body (''User '' @ quoted name @ '' not found'')), s)"
  by (simp add: delete_user_def usernames_def)

lemma tables_removed_reads:
  "read_totals (tables_removed name s) = read_totals s"
  "read_config (tables_removed name s) = read_config s"
  "config_file (tables_removed name s) = config_file s"
  "totals_file (tables_removed name s) = totals_file s"
  "stats_file (tables_removed name s) = stats_file s"
  "history_file (tables_removed name s) = history_file s"
  by (simp_all add: tables_removed_def Let_def read_totals_def read_config_def
      split: option.splits)

lemma delete_known:
  assumes k: "name \<in> usernames s"
  shows "delete_user name s =
     (case py_pop (read_totals s) name of
        Inl err \<Rightarrow> (Inl err, tables_removed name s)
      | Inr totals \<Rightarrow>
          (case rebuild_xray_config (AList.delete name (read_uuids s)) (read_disabled s - {name})
                  (records_removed name totals (tables_removed name s)) of
             (Inl err, s7) \<Rightarrow> (Inl err, s7)
           | (Inr u, s7) \<Rightarrow> (Inr (200, message_body (''User '' @ quoted name @ '' deleted'')), s7)))"
proof -
  define s1 where "s1 = (case find_subscription_token name s of
                        None \<Rightarrow> s
                      | Some token \<Rightarrow>
                          if token \<noteq> [] then s\<lparr>sub_dir := AList.delete token (sub_dir s)\<rparr>
                          else s)"
  have f: "read_disabled s1 = read_disabled s" "read_totals s1 = read_totals s"
    by (simp_all add: s1_def split: option.splits)
  have t: "tables_removed name s =
      write_disabled (read_disabled s - {name}) (write_uuids (AList.delete name (read_uuids s)) s1)"
    unfolding tables_removed_def Let_def s1_def [symmetric] by (simp add: f)
  have "delete_user name s =
     (case py_pop (read_totals s) name of
        Inl err \<Rightarrow> (Inl err, write_disabled (read_disabled s - {name})
                              (write_uuids (AList.delete name (read_uuids s)) s1))
      | Inr totals \<Rightarrow>
          (case rebuild_xray_config (AList.delete name (read_uuids s)) (read_disabled s - {name})
                  (drop_from_history name (drop_from_stats name (write_totals totals
                      (write_disabled (read_disabled s - {name})
                              (write_uuids (AList.delete name (read_uuids s)) s1))))) of
             (Inl err, s7) \<Rightarrow> (Inl err, s7)
           | (Inr u, s7) \<Rightarrow> (Inr (200, message_body (''User '' @ quoted name @ '' deleted'')), s7)))"
    unfolding delete_user_def Let_def s1_def [symmetric] using k by (simp add: usernames_def f cong: sum.case_cong)
  then show ?thesis by (simp add: t records_removed_def cong: sum.case_cong)
qed

lemma request_username_body [simp]: "request_username (username_body u) = Inr (py_strip u)"
  by (simp add: request_username_def username_body_def)

lemma underscore_hyphen_not_alnum [simp]:
  "\<not> isalnum_char CHR ''_''" "\<not> isalnum_char CHR ''-''"
  by (simp_all add: isalnum_char_def)

lemma remove_both:
  "py_remove CHR ''-'' (py_remove CHR ''_'' n) = filter (\<lambda>c. c \<noteq> CHR ''_'' \<and> c \<noteq> CHR ''-'') n"
  by (induction n) (simp_all add: py_remove_def)

lemma isalnum_removed:
  "py_isalnum (py_remove CHR ''-'' (py_remove CHR ''_'' n))
   \<longleftrightarrow> list_all name_char n \<and> list_ex isalnum_char n"
proof -
  let ?P = "\<lambda>c. c \<noteq> CHR ''_'' \<and> c \<noteq> CHR ''-''"
  have a: "list_all isalnum_char (filter ?P n) \<longleftrightarrow> list_all name_char n"
    by (induction n) (auto simp: name_char_def)
  have b: "list_all name_char n \<Longrightarrow> filter ?P n \<noteq> [] \<longleftrightarrow> list_ex isalnum_char n"
    by (induction n) (auto simp: name_char_def)
  show ?thesis
    unfolding remove_both py_isalnum_def a using b by blast
qed

lemma check_username_None:
  "check_username n = None
   \<longleftrightarrow> n \<noteq> [] \<and> length n \<le> 32 \<and> list_all name_char n \<and> list_ex isalnum_char n"
  by (simp add: check_username_def isalnum_removed)

lemma check_username_400: "check_username n = Some resp \<Longrightarrow> fst resp = 400"
  by (auto simp: check_username_def split: if_splits)

lemma http_status_simps [simp]:
  "http_status (Inl err) = 500" "http_status (Inr (code, b)) = code"
  by (simp_all add: http_status_def)

lemma create_valid_not_400:
  assumes "request_username body = Inr n" "check_username n = None"
  shows "http_status (fst (create_user e nu nt body s)) \<noteq> 400"
proof (cases "n \<in> usernames s")
  case True
  then show ?thesis by (simp add: create_conflict [OF assms])
next
  case False
  show ?thesis
    unfolding create_fresh [OF assms False]
    by (simp split: prod.splits sum.splits)
qed

lemma create_invalid_400:
  assumes "request_username body = Inr n" "check_username n \<noteq> None"
  shows "http_status (fst (create_user e nu nt body s)) = 400"
proof -
  from assms(2) obtain resp where r: "check_username n = Some resp" by auto
  obtain code b where cb: "resp = (code, b)" by (cases resp)
  with check_username_400 [OF r] have "code = 400" by simp
  with cb show ?thesis by (simp add: create_invalid [OF assms(1) r])
qed

lemma vless_scan_None_objects:
  "vless_scan e n u items = Inr None \<Longrightarrow> list_all is_object items"
proof (induction items)
  case Nil then show ?case by simp
next
  case (Cons x items)
  from Cons.prems obtain kvs where x: "x = JObj kvs"
    by (cases x) (auto split: sum.splits)
  from Cons.prems have "vless_scan e n u items = Inr None"
    by (auto split: sum.splits if_splits)
  with Cons.IH x show ?case by (simp add: is_object_def)
qed

lemma set_clients_objects_error:
  "list_all is_object items \<Longrightarrow> set_clients c items = Inl err \<Longrightarrow> err = KeyError \<or> err = TypeError"
proof (induction items)
  case Nil then show ?case by simp
next
  case (Cons x items)
  from Cons.prems(1) have rest: "list_all is_object items" and "is_object x" by simp_all
  then obtain kvs where x: "x = JObj kvs" by (cases x) (simp_all add: is_object_def)
  show ?case
  proof (cases "map_of kvs ''protocol'' = Some (JStr ''vless'')")
    case True
    show ?thesis
    proof (cases "map_of kvs ''settings''")
      case None
      with Cons.prems(2) x True show ?thesis by simp
    next
      case (Some sv)
      with Cons.prems(2) x True show ?thesis by (cases sv) (auto split: sum.splits)
    qed
  next
    case False
    then have p: "(case map_of kvs ''protocol'' of None \<Rightarrow> JNull | Some v \<Rightarrow> v) \<noteq> JStr ''vless''"
      by (auto split: option.splits)
    with Cons.prems(2) x have "set_clients c items = Inl err" by (auto split: sum.splits)
    with Cons.IH rest show ?thesis by simp
  qed
qed

lemma rebuild_error_after_scan:
  assumes "build_vless_link e n u s = Inr None" "config_file s' = config_file s"
    and "rebuild_xray_config uu d s' = (Inl err, s'')"
  shows "err = KeyError \<or> err = TypeError"
proof -
  from assms(1) obtain cfg inbounds items where c: "read_config s = Inr cfg"
    and i: "py_get cfg ''inbounds'' (JArr []) = Inr inbounds" and it: "py_iter inbounds = Inr items"
    and sc: "vless_scan e n u items = Inr None"
    by (auto simp: build_vless_link_def split: sum.splits)
  have c': "read_config s' = Inr cfg" using c assms(2) by (simp add: read_config_def)
  from assms(3) have "set_clients (JArr (clients_of uu d)) items = Inl err"
    by (auto simp: rebuild_xray_config_def c' i it split: sum.splits)
  with vless_scan_None_objects [OF sc] show ?thesis by (rule set_clients_objects_error)
qed

lemma subscription_none:
  "build_vless_link e n u s = Inr None \<Longrightarrow> create_subscription_file e n u t s = (Inr None, s)"
  by (simp add: create_subscription_file_def)

lemma name_char_plain:
  assumes "name_char c"
  shows "\<not> py_isspace c" "\<not> is_linebreak c" "c \<noteq> CHR '':''"
proof -
  show 1: "\<not> py_isspace c"
    using assms alnum_not_space [of c] by (auto simp: name_char_def py_isspace_def)
  show "\<not> is_linebreak c" using 1 linebreak_space by blast
  show "c \<noteq> CHR '':''" using assms by (auto simp: name_char_def isalnum_char_def)
qed

lemma name_chars_wf:
  assumes "list_all name_char u"
  shows "stripped u" "no_lb u" "CHR '':'' \<notin> set u"
proof -
  from assms have a: "\<And>c. c \<in> set u \<Longrightarrow> name_char c" by (simp add: list_all_iff)
  show "stripped u"
  proof (cases "u = []")
    case True then show ?thesis by (simp add: stripped_def)
  next
    case False
    then have "hd u \<in> set u" "last u \<in> set u" by simp_all
    then show ?thesis using a name_char_plain(1) by (auto simp: stripped_def)
  qed
  show "no_lb u" using a name_char_plain(2) by (auto simp: no_lb_def)
  show "CHR '':'' \<notin> set u" using a name_char_plain(3) by blast
qed

lemma uuid_shape_chars: "uuid_shape u \<Longrightarrow> list_all name_char u"
proof -
  have "\<And>c. c \<in> set ''0123456789abcdef-'' \<Longrightarrow> name_char c"
    by (auto simp: name_char_def isalnum_char_def)
  then show "uuid_shape u \<Longrightarrow> list_all name_char u"
    by (auto simp: uuid_shape_def list_all_iff)
qed

lemma valid_entry:
  assumes "check_username n = None" "uuid_shape u"
  shows "wf_entry (n, u)"
proof -
  from assms(1) have "list_all name_char n" by (simp add: check_username_None)
  with name_chars_wf [of n] name_chars_wf [OF uuid_shape_chars [OF assms(2)]]
  show ?thesis by (simp add: wf_entry_def)
qed

lemma strip_padded:
  assumes "check_username n = None" "ws_only w1" "ws_only w2"
  shows "py_strip (w1 @ n @ w2) = n"
proof -
  from assms(1) have ne: "n \<noteq> []" and nc: "list_all name_char n"
    by (simp_all add: check_username_None)
  from ne nc have "name_char (hd n)" "name_char (last n)" by (simp_all add: list_all_iff)
  then have "\<not> py_isspace (hd n)" "\<not> py_isspace (last n)" by (simp_all add: name_char_plain(1))
  with ne show ?thesis using assms(2,3) by (intro strip_pad) (simp_all add: ws_only_def list_all_iff)
qed

lemma create_fresh_state:
  assumes "request_username body = Inr n" "check_username n = None" "n \<notin> usernames s"
    and "uuid_shape nu"
  shows "read_uuids (snd (create_user e nu nt body s)) = read_uuids s @ [(n, nu)]"
    and "read_disabled (snd (create_user e nu nt body s)) = read_disabled s"
proof -
  let ?d = "AList.update n nu (read_uuids s)"
  let ?s1 = "write_uuids ?d s"
  have d: "?d = read_uuids s @ [(n, nu)]"
    using assms(3) by (simp add: update_new usernames_def)
  have wf: "wf_uuids ?d"
    using read_uuids_wf valid_entry [OF assms(2,4)] by (rule wf_update)
  have r1: "read_uuids ?s1 = ?d" using wf by (rule read_write_uuids)
  obtain r2 s2 where sub: "create_subscription_file e n nu nt ?s1 = (r2, s2)" by (rule prod.exhaust)
  note sr = subscription_reads [OF sub]
  obtain rr s3 where rb: "rebuild_xray_config ?d (read_disabled s2) s2 = (rr, s3)" by (rule prod.exhaust)
  note rr = rebuild_reads [OF rb]
  have "snd (create_user e nu nt body s) = s2 \<or> snd (create_user e nu nt body s) = s3"
    unfolding create_fresh [OF assms(1,2,3)] sub by (simp add: rb split: sum.splits)
  then show "read_uuids (snd (create_user e nu nt body s)) = read_uuids s @ [(n, nu)]"
    and "read_disabled (snd (create_user e nu nt body s)) = read_disabled s"
    using sr(1,2) rr(1,2) r1 d by auto
qed

lemma create_fresh_outcome:
  assumes "request_username body = Inr n" "check_username n = None" "n \<notin> usernames s"
    and "fst (create_user e nu nt body s) = Inr (code, b)"
  shows "code = 201 \<and> body_field b ''username'' = Some (JStr n) \<and> body_field b ''uuid'' = Some (JStr nu)
         \<and> body_field b ''status'' = Some (JStr ''active'')"
  using assms(4) unfolding create_fresh [OF assms(1,2,3)]
  by (auto simp: body_field_def created_body_def split: prod.splits sum.splits)

lemma created_was_fresh:
  assumes "request_username body = Inr n" "create_user e nu nt body s = (Inr (201, b), s1)"
  shows "check_username n = None" "n \<notin> usernames s"
proof -
  show v: "check_username n = None"
  proof (cases "check_username n")
    case None then show ?thesis .
  next
    case (Some resp)
    from create_invalid [OF assms(1) Some, of e nu nt s] assms(2) check_username_400 [OF Some]
    show ?thesis by auto
  qed
  show "n \<notin> usernames s"
  proof
    assume "n \<in> usernames s"
    from create_conflict [OF assms(1) v this, of e nu nt] assms(2) show False by simp
  qed
qed

subsection \<open>The two tables after a request\<close>

lemma usernames_plain:
  assumes "n \<in> usernames s"
  shows "stripped n" "no_lb n"
proof -
  from assms obtain e where e: "e \<in> set (read_uuids s)" "n = fst e" by (auto simp: usernames_def)
  with read_uuids_wf [of s] have "wf_entry e" by (simp add: wf_uuids_def)
  with e(2) show "stripped n" "no_lb n" by (simp_all add: wf_entry_def)
qed

lemma tidy_plain: "tidy_disabled s \<Longrightarrow> plain_names (read_disabled s)"
  by (auto simp: tidy_disabled_def plain_names_def dest: read_disabled_no_lb)

lemma disabled_lines_set: "set (disabled_lines s) = read_disabled s"
  by (simp add: disabled_lines_def read_disabled_def split: option.splits)

lemma written_disabled:
  assumes "finite D" "plain_names D" "[] \<notin> D"
  shows "read_disabled (write_disabled D s) = D"
    and "tidy_disabled (write_disabled D s)"
    and "distinct (disabled_lines (write_disabled D s))"
proof -
  show 1: "read_disabled (write_disabled D s) = D"
    using read_write_disabled [OF assms(1,2), of s] assms(3) by simp
  show "tidy_disabled (write_disabled D s)"
    unfolding tidy_disabled_def 1 using assms(2,3) by (auto simp: plain_names_def)
  have "disabled_lines (write_disabled D s) = filter (\<lambda>l. l \<noteq> []) (sorted_list_of_set D)"
    using disabled_text_lines_list [OF assms(1,2)]
    by (simp add: disabled_lines_def write_disabled_def)
  then show "distinct (disabled_lines (write_disabled D s))" by simp
qed

lemma tidy_insert:
  assumes "tidy_disabled s" "name \<in> usernames s" "name \<noteq> []"
  shows "plain_names (insert name (read_disabled s))" "[] \<notin> insert name (read_disabled s)"
  using assms tidy_plain [OF assms(1)] usernames_plain [OF assms(2)]
  by (auto simp: plain_names_def tidy_disabled_def)

lemma tidy_remove:
  assumes "tidy_disabled s"
  shows "plain_names (read_disabled s - {name})" "[] \<notin> read_disabled s - {name}"
  using assms tidy_plain [OF assms(1)] by (auto simp: plain_names_def tidy_disabled_def)

lemma rebuild_tidy:
  assumes "rebuild_xray_config u d s = (r, s')"
  shows "tidy_disabled s' = tidy_disabled s" "disabled_lines s' = disabled_lines s"
  using rebuild_fields(2) [OF assms] rebuild_reads(2) [OF assms]
  by (simp_all add: tidy_disabled_def disabled_lines_def)

lemma disable_state:
  assumes "name \<in> usernames s" "name \<noteq> []" "tidy_disabled s" "disable_user name s = (r, s')"
  shows "read_disabled s' = insert name (read_disabled s)" "read_uuids s' = read_uuids s"
    "tidy_disabled s'"
proof -
  let ?D = "insert name (read_disabled s)"
  note w = written_disabled [OF _ tidy_insert [OF assms(3,1,2)], of s, simplified]
  have "read_disabled s' = ?D \<and> read_uuids s' = read_uuids s \<and> tidy_disabled s'"
    using assms(4)
  proof (cases rule: disable_user_cases)
    case missing
    with assms(1) show ?thesis by simp
  next
    case already
    with assms(3) show ?thesis by (simp add: insert_absorb)
  next
    case (changed x)
    from rebuild_reads(1,2) [OF changed(3)] rebuild_tidy(1) [OF changed(3)] w(1,2)
    show ?thesis by simp
  next
    case (failed err)
    with w(1,2) show ?thesis by simp
  qed
  then show "read_disabled s' = insert name (read_disabled s)" "read_uuids s' = read_uuids s"
    "tidy_disabled s'" by simp_all
qed

lemma enable_state:
  assumes "name \<in> usernames s" "tidy_disabled s" "enable_user name s = (r, s')"
  shows "read_disabled s' = read_disabled s - {name}" "read_uuids s' = read_uuids s"
    "tidy_disabled s'"
proof -
  let ?D = "read_disabled s - {name}"
  note w = written_disabled [OF _ tidy_remove [OF assms(2)], of name s, simplified]
  have "read_disabled s' = ?D \<and> read_uuids s' = read_uuids s \<and> tidy_disabled s'"
    using assms(3)
  proof (cases rule: enable_user_cases)
    case missing
    with assms(1) show ?thesis by simp
  next
    case already
    with assms(2) show ?thesis by simp
  next
    case (changed x)
    from rebuild_reads(1,2) [OF changed(3)] rebuild_tidy(1) [OF changed(3)] w(1,2)
    show ?thesis by simp
  next
    case (failed err)
    with w(1,2) show ?thesis by simp
  qed
  then show "read_disabled s' = read_disabled s - {name}" "read_uuids s' = read_uuids s"
    "tidy_disabled s'" by simp_all
qed

lemma usernames_read_uuids: "read_uuids s' = read_uuids s \<Longrightarrow> usernames s' = usernames s"
  by (simp add: usernames_def)

subsection \<open>The stages of a deletion\<close>

lemma tables_removed_uuids: "read_uuids (tables_removed name s) = AList.delete name (read_uuids s)"
proof -
  have "wf_uuids (AList.delete name (read_uuids s))" using read_uuids_wf by (rule wf_delete)
  then show ?thesis by (simp add: tables_removed_def Let_def read_write_uuids)
qed

lemma tables_removed_disabled:
  assumes "plain_names (read_disabled s)"
  shows "read_disabled (tables_removed name s) = read_disabled s - {name} - {[]}"
    and "disabled_file (tables_removed name s) = Some (disabled_text (read_disabled s - {name}))"
proof -
  have d: "read_disabled (case find_subscription_token name s of
                  None \<Rightarrow> s
                | Some token \<Rightarrow>
                    if token \<noteq> [] then s\<lparr>sub_dir := AList.delete token (sub_dir s)\<rparr> else s)
           = read_disabled s"
    by (simp split: option.splits)
  have p: "plain_names (read_disabled s - {name})" using assms by (simp add: plain_names_def)
  show "read_disabled (tables_removed name s) = read_disabled s - {name} - {[]}"
    unfolding tables_removed_def Let_def by (simp add: d read_write_disabled p)
  show "disabled_file (tables_removed name s) = Some (disabled_text (read_disabled s - {name}))"
    unfolding tables_removed_def Let_def by (simp add: d write_disabled_def)
qed


lemma records_removed_fields [simp]:
  "config_file (records_removed name totals s) = config_file s"
  "uuids_file (records_removed name totals s) = uuids_file s"
  "disabled_file (records_removed name totals s) = disabled_file s"
  "sub_dir (records_removed name totals s) = sub_dir s"
  "totals_file (records_removed name totals s) = Json totals"
  by (simp_all add: records_removed_def)

lemma records_removed_reads [simp]:
  "read_uuids (records_removed name totals s) = read_uuids s"
  "read_disabled (records_removed name totals s) = read_disabled s"
  "read_totals (records_removed name totals s) = totals"
  "read_config (records_removed name totals s) = read_config s"
  "usernames (records_removed name totals s) = usernames s"
  by (simp_all add: records_removed_def)

lemma delete_user_cases [consumes 1, case_names missing ledger_failed rebuild_failed deleted]:
  assumes "delete_user name s = (r, s')"
  obtains "name \<notin> usernames s"
      "r = Inr (404, error_body (''User '' @ quoted name @ '' not found''))" "s' = s"
  | err where "name \<in> usernames s" "py_pop (read_totals s) name = Inl err"
      "r = Inl err" "s' = tables_removed name s"
  | totals err where "name \<in> usernames s" "py_pop (read_totals s) name = Inr totals"
      "rebuild_xray_config (AList.delete name (read_uuids s)) (read_disabled s - {name})
         (records_removed name totals (tables_removed name s)) = (Inl err, s')"
      "r = Inl err" "s' = records_removed name totals (tables_removed name s)"
  | totals x where "name \<in> usernames s" "py_pop (read_totals s) name = Inr totals"
      "rebuild_xray_config (AList.delete name (read_uuids s)) (read_disabled s - {name})
         (records_removed name totals (tables_removed name s)) = (Inr x, s')"
      "r = Inr (200, message_body (''User '' @ quoted name @ '' deleted''))"
proof (cases "name \<in> usernames s")
  case False
  from assms delete_missing [OF False]
  have "r = Inr (404, error_body (''User '' @ quoted name @ '' not found''))" "s' = s"
    by simp_all
  with False show ?thesis by (rule that(1))
next
  case known: True
  note eq = delete_known [OF known]
  show ?thesis
  proof (cases "py_pop (read_totals s) name")
    case (Inl err)
    from assms have "r = Inl err" "s' = tables_removed name s" unfolding eq Inl by simp_all
    with known Inl show ?thesis by (rule that(2))
  next
    case (Inr totals)
    obtain rr s7 where rb: "rebuild_xray_config (AList.delete name (read_uuids s))
         (read_disabled s - {name}) (records_removed name totals (tables_removed name s)) = (rr, s7)"
      by (rule prod.exhaust)
    show ?thesis
    proof (cases rr)
      case rl: (Inl err)
      from assms have "r = Inl err" "s' = s7" unfolding eq Inr by (simp_all add: rb rl)
      moreover from rb rl have "s7 = records_removed name totals (tables_removed name s)"
        by (simp add: rebuild_raises)
      ultimately have "rebuild_xray_config (AList.delete name (read_uuids s)) (read_disabled s - {name})
         (records_removed name totals (tables_removed name s)) = (Inl err, s')"
        "r = Inl err" "s' = records_removed name totals (tables_removed name s)"
        using rb rl by simp_all
      with known Inr show ?thesis by (rule that(3))
    next
      case rr: (Inr x)
      from assms have "r = Inr (200, message_body (''User '' @ quoted name @ '' deleted''))" "s' = s7"
        unfolding eq Inr by (simp_all add: rb rr)
      then have "rebuild_xray_config (AList.delete name (read_uuids s)) (read_disabled s - {name})
         (records_removed name totals (tables_removed name s)) = (Inr x, s')"
        "r = Inr (200, message_body (''User '' @ quoted name @ '' deleted''))"
        using rb rr by simp_all
      with known Inr show ?thesis by (rule that(4))
    qed
  qed
qed

lemma delete_state:
  assumes "name \<in> usernames s" "plain_names (read_disabled s)" "delete_user name s = (r, s')"
  shows "read_uuids s' = AList.delete name (read_uuids s)"
    and "read_disabled s' = read_disabled s - {name} - {[]}"
    and "disabled_file s' = Some (disabled_text (read_disabled s - {name}))"
    and "sub_dir s' = sub_dir (tables_removed name s)"
proof -
  note tu = tables_removed_uuids [of name s]
  note td = tables_removed_disabled [OF assms(2), of name]
  have "read_uuids s' = AList.delete name (read_uuids s)
      \<and> read_disabled s' = read_disabled s - {name} - {[]}
      \<and> disabled_file s' = Some (disabled_text (read_disabled s - {name}))
      \<and> sub_dir s' = sub_dir (tables_removed name s)"
    using assms(3)
  proof (cases rule: delete_user_cases)
    case missing
    with assms(1) show ?thesis by simp
  next
    case (ledger_failed err)
    with tu td show ?thesis by simp
  next
    case (rebuild_failed totals err)
    with tu td show ?thesis by simp
  next
    case (deleted totals x)
    from rebuild_reads(1,2) [OF deleted(3)] rebuild_fields(2,3) [OF deleted(3)] tu td
    show ?thesis by simp
  qed
  then show "read_uuids s' = AList.delete name (read_uuids s)"
    and "read_disabled s' = read_disabled s - {name} - {[]}"
    and "disabled_file s' = Some (disabled_text (read_disabled s - {name}))"
    and "sub_dir s' = sub_dir (tables_removed name s)"
    by simp_all
qed

lemma usernames_delete: "usernames s' = usernames s - {name}"
  if "read_uuids s' = AList.delete name (read_uuids s)"
  using that by (auto simp: usernames_def AList.delete_eq)

subsection \<open>Configurations without reality parameters\<close>

lemma no_reality_object: "no_reality x \<Longrightarrow> is_object x"
  by (cases x) (simp_all add: no_reality_def is_object_def)

lemma vless_scan_step:
  "vless_scan e n u (x # items) = Inr None \<longleftrightarrow> no_reality x \<and> vless_scan e n u items = Inr None"
proof (cases x)
  case (JObj kvs)
  show ?thesis
  proof (cases "map_of kvs ''streamSettings''")
    case None
    with JObj show ?thesis by (simp add: no_reality_def)
  next
    case (Some ssv)
    show ?thesis
    proof (cases ssv)
      case ss: (JObj ss)
      show ?thesis
      proof (cases "map_of ss ''realitySettings''")
        case None
        with JObj Some ss show ?thesis by (simp add: no_reality_def)
      next
        case rs: (Some rs)
        with JObj Some ss show ?thesis
          by (simp add: no_reality_def split: sum.splits)
      qed
    qed (use JObj Some in \<open>simp_all add: no_reality_def\<close>)
  qed
qed (simp_all add: no_reality_def)

lemma vless_scan_None_iff:
  "vless_scan e n u items = Inr None \<longleftrightarrow> list_all no_reality items"
proof (induction items)
  case Nil show ?case by simp
next
  case (Cons x items)
  show ?case unfolding vless_scan_step using Cons.IH by simp
qed

lemma link_none_iff: "build_vless_link e n u s = Inr None \<longleftrightarrow> without_reality s"
proof (cases "inbound_list s")
  case None
  then have "\<forall>items. build_vless_link e n u s \<noteq> Inr None"
    by (auto simp: inbound_list_def build_vless_link_def read_config_def
        split: jfile.splits json.splits option.splits sum.splits)
  with None show ?thesis by (simp add: without_reality_def)
next
  case (Some items)
  then have "build_vless_link e n u s = vless_scan e n u items"
    by (auto simp: inbound_list_def build_vless_link_def read_config_def
        split: jfile.splits json.splits option.splits sum.splits)
  with Some show ?thesis by (simp add: without_reality_def vless_scan_None_iff)
qed

lemma set_clients_objects:
  "list_all is_object items \<Longrightarrow>
   (case settings_error_of items of
      Some err \<Rightarrow> set_clients c items = Inl err
    | None \<Rightarrow> (\<exists>items'. set_clients c items = Inr items'))"
proof (induction items)
  case Nil show ?case by (simp add: settings_error_of_def)
next
  case (Cons x items)
  from Cons.prems have rest: "list_all is_object items" and "is_object x" by simp_all
  then obtain kvs where x: "x = JObj kvs" by (cases x) (simp_all add: is_object_def)
  show ?case
  proof (cases "map_of kvs ''protocol'' = Some (JStr ''vless'')")
    case True
    show ?thesis
    proof (cases "map_of kvs ''settings''")
      case None
      with x True show ?thesis by (simp add: settings_error_of_def)
    next
      case (Some sv)
      with x True show ?thesis by (cases sv) (simp_all add: settings_error_of_def)
    qed
  next
    case False
    then have p: "(case map_of kvs ''protocol'' of None \<Rightarrow> JNull | Some v \<Rightarrow> v) \<noteq> JStr ''vless''"
      by (auto split: option.splits)
    have se: "settings_error_of (x # items) = settings_error_of items"
      using x False by (simp add: settings_error_of_def)
    show ?thesis
    proof (cases "settings_error_of items")
      case None
      with Cons.IH [OF rest] obtain items' where "set_clients c items = Inr items'" by auto
      then show ?thesis unfolding se None using x p by simp
    next
      case (Some err)
      with Cons.IH [OF rest] have "set_clients c items = Inl err" by simp
      then show ?thesis unfolding se Some using x p by simp
    qed
  qed
qed

lemma rebuild_objects:
  assumes "inbound_list s = Some items" "list_all is_object items"
  shows "fst (rebuild_xray_config u d s)
         = (case settings_error_of items of None \<Rightarrow> Inr () | Some err \<Rightarrow> Inl err)"
proof -
  from assms(1) obtain kvs where cfg: "read_config s = Inr (JObj kvs)"
    and it: "py_iter (case map_of kvs ''inbounds'' of None \<Rightarrow> JArr [] | Some v \<Rightarrow> v) = Inr items"
    by (auto simp: inbound_list_def read_config_def
        split: jfile.splits json.splits option.splits sum.splits)
  note sc = set_clients_objects [OF assms(2), of "JArr (clients_of u d)"]
  show ?thesis
  proof (cases "settings_error_of items")
    case None
    with sc obtain items' where "set_clients (JArr (clients_of u d)) items = Inr items'" by auto
    with None cfg it show ?thesis by (simp add: rebuild_xray_config_def)
  next
    case (Some err)
    with sc have "set_clients (JArr (clients_of u d)) items = Inl err" by simp
    with Some cfg it show ?thesis by (simp add: rebuild_xray_config_def)
  qed
qed

lemma inbound_list_cong: "config_file s' = config_file s \<Longrightarrow> inbound_list s' = inbound_list s"
  by (simp add: inbound_list_def)

subsection \<open>The disabled set inside the credential table\<close>

lemma subset_plain: "read_disabled s \<subseteq> usernames s \<Longrightarrow> plain_names (read_disabled s)"
  using usernames_plain by (auto simp: plain_names_def)

lemma written_disabled_subset:
  assumes "finite D" "plain_names D" "disabled_file s' = disabled_file (write_disabled D s)"
  shows "read_disabled s' \<subseteq> D"
proof -
  have "read_disabled s' = read_disabled (write_disabled D s)"
    using assms(3) by (simp add: read_disabled_def)
  then show ?thesis using read_write_disabled [OF assms(1,2), of s] by auto
qed

lemma disable_subset:
  assumes "read_disabled s \<subseteq> usernames s" "disable_user name s = (r, s')"
  shows "read_disabled s' \<subseteq> usernames s'"
  using assms(2)
proof (cases rule: disable_user_cases)
  case missing with assms(1) show ?thesis by simp
next
  case already with assms(1) show ?thesis by simp
next
  case (changed x)
  have p: "plain_names (insert name (read_disabled s))"
    using subset_plain [OF assms(1)] usernames_plain [OF changed(1)] by (simp add: plain_names_def)
  have "read_disabled s' \<subseteq> insert name (read_disabled s)"
    using rebuild_fields(2) [OF changed(3)] by (intro written_disabled_subset [OF _ p, of _ s]) simp_all
  moreover have "usernames s' = usernames s" using rebuild_reads(4) [OF changed(3)] by simp
  ultimately show ?thesis using assms(1) changed(1) by auto
next
  case (failed err)
  have p: "plain_names (insert name (read_disabled s))"
    using subset_plain [OF assms(1)] usernames_plain [OF failed(1)] by (simp add: plain_names_def)
  have "read_disabled s' \<subseteq> insert name (read_disabled s)"
    using failed(5) by (intro written_disabled_subset [OF _ p, of _ s]) simp_all
  moreover have "usernames s' = usernames s" using failed(5) by simp
  ultimately show ?thesis using assms(1) failed(1) by auto
qed

lemma enable_subset:
  assumes "read_disabled s \<subseteq> usernames s" "enable_user name s = (r, s')"
  shows "read_disabled s' \<subseteq> usernames s'"
  using assms(2)
proof (cases rule: enable_user_cases)
  case missing with assms(1) show ?thesis by simp
next
  case already with assms(1) show ?thesis by simp
next
  case (changed x)
  have p: "plain_names (read_disabled s - {name})"
    using subset_plain [OF assms(1)] by (simp add: plain_names_def)
  have "read_disabled s' \<subseteq> read_disabled s - {name}"
    using rebuild_fields(2) [OF changed(3)] by (intro written_disabled_subset [OF _ p, of _ s]) simp_all
  moreover have "usernames s' = usernames s" using rebuild_reads(4) [OF changed(3)] by simp
  ultimately show ?thesis using assms(1) by auto
next
  case (failed err)
  have p: "plain_names (read_disabled s - {name})"
    using subset_plain [OF assms(1)] by (simp add: plain_names_def)
  have "read_disabled s' \<subseteq> read_disabled s - {name}"
    using failed(5) by (intro written_disabled_subset [OF _ p, of _ s]) simp_all
  moreover have "usernames s' = usernames s" using failed(5) by simp
  ultimately show ?thesis using assms(1) by auto
qed

lemma delete_subset:
  assumes "read_disabled s \<subseteq> usernames s" "delete_user name s = (r, s')"
  shows "read_disabled s' \<subseteq> usernames s'"
proof (cases "name \<in> usernames s")
  case False
  have "s' = s" using assms(2) unfolding delete_missing [OF False] by simp
  with assms(1) show ?thesis by simp
next
  case True
  note st = delete_state [OF True subset_plain [OF assms(1)] assms(2)]
  have u: "usernames s' = usernames s - {name}" using st(1) by (rule usernames_delete)
  have "read_disabled s' \<subseteq> read_disabled s - {name}" unfolding st(2) by blast
  with u assms(1) show ?thesis by blast
qed

lemma delete_not_disabled:
  assumes "name \<in> usernames s" "read_disabled s \<subseteq> usernames s"
  shows "name \<notin> read_disabled (snd (delete_user name s))"
proof -
  obtain r s' where d: "delete_user name s = (r, s')" by (rule prod.exhaust)
  have "read_disabled s' = read_disabled s - {name} - {[]}"
    using assms(1) subset_plain [OF assms(2)] d by (rule delete_state(2))
  then have "name \<notin> read_disabled s'" by blast
  then show ?thesis unfolding d snd_conv .
qed

lemma create_subset:
  assumes "read_disabled s \<subseteq> usernames s" "uuid_shape nu"
  shows "read_disabled (snd (create_user e nu nt body s)) \<subseteq> usernames (snd (create_user e nu nt body s))"
proof (cases "request_username body")
  case (Inl err)
  with assms(1) show ?thesis by (simp add: create_bad_request)
next
  case (Inr n)
  show ?thesis
  proof (cases "check_username n")
    case (Some resp)
    with assms(1) show ?thesis by (simp add: create_invalid [OF Inr])
  next
    case None
    show ?thesis
    proof (cases "n \<in> usernames s")
      case True
      with assms(1) show ?thesis by (simp add: create_conflict [OF Inr None])
    next
      case False
      note st = create_fresh_state [OF Inr None False assms(2), of e nt]
      have "usernames (snd (create_user e nu nt body s)) = insert n (usernames s)"
        by (simp add: usernames_def st(1))
      with st(2) assms(1) show ?thesis by auto
    qed
  qed
qed

lemma reset_subset:
  assumes "read_disabled s \<subseteq> usernames s"
  shows "read_disabled (snd (reset_traffic name s)) \<subseteq> usernames (snd (reset_traffic name s))"
  using assms by (simp add: reset_traffic_def Let_def split: sum.splits)

lemma handle_subset:
  assumes "read_disabled s \<subseteq> usernames s" "request_ok req"
  shows "read_disabled (snd (handle e req s)) \<subseteq> usernames (snd (handle e req s))"
proof (cases req)
  case (Create body nu nt)
  with assms show ?thesis by (simp add: create_subset)
next
  case (Delete name)
  obtain r s' where d: "delete_user name s = (r, s')" by (rule prod.exhaust)
  from delete_subset [OF assms(1) d] show ?thesis unfolding Delete by (simp add: d)
next
  case (Disable name)
  obtain r s' where d: "disable_user name s = (r, s')" by (rule prod.exhaust)
  from disable_subset [OF assms(1) d] show ?thesis unfolding Disable by (simp add: d)
next
  case (Enable name)
  obtain r s' where d: "enable_user name s = (r, s')" by (rule prod.exhaust)
  from enable_subset [OF assms(1) d] show ?thesis unfolding Enable by (simp add: d)
next
  case (Reset name)
  from reset_subset [OF assms(1)] show ?thesis unfolding Reset by simp
qed

lemma run_subset:
  "read_disabled s \<subseteq> usernames s \<Longrightarrow> list_all request_ok reqs \<Longrightarrow>
   read_disabled (run e reqs s) \<subseteq> usernames (run e reqs s)"
proof (induction reqs arbitrary: s)
  case Nil then show ?case by simp
next
  case (Cons req reqs)
  from Cons.prems have "request_ok req" "list_all request_ok reqs" by simp_all
  with Cons.prems(1) have "read_disabled (snd (handle e req s)) \<subseteq> usernames (snd (handle e req s))"
    by (simp add: handle_subset)
  from Cons.IH [OF this \<open>list_all request_ok reqs\<close>] show ?case by simp
qed

subsection \<open>The client list after a rebuild\<close>

lemma clients_of_spec: "clients_of (read_uuids s) (read_disabled s) = spec_active_clients s"
proof -
  have "\<And>D xs. map (\<lambda>(name, uid). client_record name uid) (filter (\<lambda>(name, uid). name \<notin> D) xs)
      = concat (map (\<lambda>(name, uid). if name \<notin> D
            then [JObj [(''id'', JStr uid), (''flow'', JStr ''xtls-rprx-vision''),
                        (''email'', JStr name), (''level'', JNum 0)]] else []) xs)"
  proof -
    fix D :: "string set" and xs :: uuids
    show "map (\<lambda>(name, uid). client_record name uid) (filter (\<lambda>(name, uid). name \<notin> D) xs)
      = concat (map (\<lambda>(name, uid). if name \<notin> D
            then [JObj [(''id'', JStr uid), (''flow'', JStr ''xtls-rprx-vision''),
                        (''email'', JStr name), (''level'', JNum 0)]] else []) xs)"
      by (induction xs) (auto simp: client_record_def)
  qed
  then show ?thesis
    by (simp add: clients_of_def active_uuids_def spec_active_clients_def)
qed

lemma has_vless_cong: "config_file s' = config_file s \<Longrightarrow> has_vless s' = has_vless s"
  by (simp add: has_vless_def)


lemma clients_after_rebuild:
  assumes "rebuild_xray_config u d s1 = (Inr x, s')" "has_vless s1"
    and "read_uuids s1 = u" "read_disabled s1 = d"
  shows "active_clients_file s' = Some (JArr (spec_active_clients s'))"
proof -
  have "active_clients_file s' = Some (JArr (clients_of u d))"
    using assms(1,2) by (rule rebuild_clients)
  moreover have "read_uuids s' = u" "read_disabled s' = d"
    using rebuild_reads(1,2) [OF assms(1)] assms(3,4) by simp_all
  ultimately show ?thesis using clients_of_spec [of s'] by simp
qed

lemma tidy_read_disabled: "read_disabled s' = read_disabled s \<Longrightarrow> tidy_disabled s' = tidy_disabled s"
  by (simp add: tidy_disabled_def)

lemma tidy_subset: "tidy_disabled s \<Longrightarrow> read_disabled s' \<subseteq> read_disabled s \<Longrightarrow> tidy_disabled s'"
  by (auto simp: tidy_disabled_def)

lemma disable_clients:
  assumes "has_vless s" "tidy_disabled s" "name \<noteq> []"
    and "name \<in> usernames s \<and> name \<notin> read_disabled s"
    and "disable_user name s = (Inr resp, s')"
  shows "active_clients_file s' = Some (JArr (spec_active_clients s'))"
  using assms(5)
proof (cases rule: disable_user_cases)
  case missing with assms(4) show ?thesis by simp
next
  case already with assms(4) show ?thesis by simp
next
  case (changed x)
  let ?s1 = "write_disabled (insert name (read_disabled s)) s"
  have "has_vless ?s1" using assms(1) has_vless_cong [of ?s1 s] by simp
  moreover have "read_disabled ?s1 = insert name (read_disabled s)"
    using written_disabled(1) [OF _ tidy_insert [OF assms(2) changed(1) assms(3)], of s] by simp
  ultimately show ?thesis using changed(3) by (intro clients_after_rebuild [OF changed(3)]) simp_all
next
  case (failed err) then show ?thesis by simp
qed

lemma enable_clients:
  assumes "has_vless s" "tidy_disabled s"
    and "name \<in> usernames s \<and> name \<in> read_disabled s"
    and "enable_user name s = (Inr resp, s')"
  shows "active_clients_file s' = Some (JArr (spec_active_clients s'))"
  using assms(4)
proof (cases rule: enable_user_cases)
  case missing with assms(3) show ?thesis by simp
next
  case already with assms(3) show ?thesis by simp
next
  case (changed x)
  let ?s1 = "write_disabled (read_disabled s - {name}) s"
  have "has_vless ?s1" using assms(1) has_vless_cong [of ?s1 s] by simp
  moreover have "read_disabled ?s1 = read_disabled s - {name}"
    using written_disabled(1) [OF _ tidy_remove [OF assms(2)], of name s] by simp
  ultimately show ?thesis by (intro clients_after_rebuild [OF changed(3)]) simp_all
next
  case (failed err) then show ?thesis by simp
qed

lemma delete_clients:
  assumes "has_vless s" "tidy_disabled s" "name \<in> usernames s"
    and "delete_user name s = (Inr resp, s')"
  shows "active_clients_file s' = Some (JArr (spec_active_clients s'))"
  using assms(4)
proof (cases rule: delete_user_cases)
  case missing with assms(3) show ?thesis by simp
next
  case (ledger_failed err) then show ?thesis by simp
next
  case (rebuild_failed totals err) then show ?thesis by simp
next
  case (deleted totals x)
  let ?s1 = "records_removed name totals (tables_removed name s)"
  have "config_file ?s1 = config_file s" by (simp add: tables_removed_reads(3))
  then have "has_vless ?s1" using assms(1) has_vless_cong [of ?s1 s] by simp
  moreover have "read_uuids ?s1 = AList.delete name (read_uuids s)"
    by (simp add: tables_removed_uuids)
  moreover have "[] \<notin> read_disabled s" using assms(2) by (auto simp: tidy_disabled_def)
  then have "read_disabled ?s1 = read_disabled s - {name}"
    using tables_removed_disabled(1) [OF tidy_plain [OF assms(2)], of name] by auto
  ultimately show ?thesis by (intro clients_after_rebuild [OF deleted(3)]) simp_all
qed

lemma create_clients:
  assumes "has_vless s" "uuid_shape nu"
    and "request_username body = Inr n" "check_username n = None" "n \<notin> usernames s"
    and "create_user e nu nt body s = (Inr resp, s')"
  shows "active_clients_file s' = Some (JArr (spec_active_clients s'))"
proof -
  let ?d = "AList.update n nu (read_uuids s)"
  let ?s1 = "write_uuids ?d s"
  have wf: "wf_uuids ?d"
    using read_uuids_wf valid_entry [OF assms(4,2)] by (rule wf_update)
  have r1: "read_uuids ?s1 = ?d" using wf by (rule read_write_uuids)
  obtain r2 s2 where sub: "create_subscription_file e n nu nt ?s1 = (r2, s2)" by (rule prod.exhaust)
  note sr = subscription_reads [OF sub] and sf = subscription_fields [OF sub]
  obtain rr s3 where rb: "rebuild_xray_config ?d (read_disabled s2) s2 = (rr, s3)" by (rule prod.exhaust)
  from assms(6) have "\<exists>x. rr = Inr x \<and> s' = s3"
    unfolding create_fresh [OF assms(3,4,5)] sub by (auto simp: rb split: sum.splits)
  then obtain x where rr: "rr = Inr x" and s': "s' = s3" by blast
  have "config_file s2 = config_file s" using sf(3) by simp
  then have hv: "has_vless s2" using assms(1) has_vless_cong [of s2 s] by simp
  have "read_uuids s2 = ?d" using sr(1) r1 by simp
  with hv show ?thesis unfolding s' using rb rr by (intro clients_after_rebuild [of ?d "read_disabled s2" s2 x]) simp_all
qed

lemma noop_unchanged:
  assumes "\<not> passes_checks req s" "rebuilds req"
  shows "snd (handle e req s) = s"
proof (cases req)
  case (Create body nu nt)
  show ?thesis
  proof (cases "request_username body")
    case (Inl err)
    then show ?thesis unfolding Create by (simp add: create_bad_request)
  next
    case (Inr n)
    show ?thesis
    proof (cases "check_username n")
      case (Some resp)
      then show ?thesis unfolding Create by (simp add: create_invalid [OF Inr])
    next
      case None
      with assms(1) Inr have "n \<in> usernames s" unfolding Create by simp
      then show ?thesis unfolding Create by (simp add: create_conflict [OF Inr None])
    qed
  qed
next
  case (Delete name)
  with assms(1) show ?thesis by (simp add: delete_missing)
next
  case (Disable name)
  with assms(1) show ?thesis by (cases "name \<in> usernames s") (simp_all add: disable_missing disable_already)
next
  case (Enable name)
  with assms(1) show ?thesis by (cases "name \<in> usernames s") (simp_all add: enable_missing enable_already)
next
  case (Reset name)
  with assms(2) show ?thesis by simp
qed

lemma passing_clients:
  assumes "has_vless s" "tidy_disabled s" "request_ok req" "rebuilds req"
    and "handle e req s = (Inr resp, s')" "passes_checks req s"
  shows "active_clients_file s' = Some (JArr (spec_active_clients s'))"
proof (cases req)
  case (Create body nu nt)
  from assms(6) obtain n where n: "request_username body = Inr n" "check_username n = None"
    "n \<notin> usernames s"
    unfolding Create by (auto split: sum.splits)
  from assms(3,5) have "uuid_shape nu" "create_user e nu nt body s = (Inr resp, s')"
    unfolding Create by simp_all
  with assms(1) n show ?thesis by (intro create_clients [of s nu body n e nt resp s']) simp_all
next
  case (Delete name)
  with assms show ?thesis by (intro delete_clients [of s name resp s']) simp_all
next
  case (Disable name)
  with assms show ?thesis by (intro disable_clients [of s name resp s']) (simp_all add: route_name_def)
next
  case (Enable name)
  with assms show ?thesis by (intro enable_clients [of s name resp s']) simp_all
next
  case (Reset name)
  with assms(4) show ?thesis by simp
qed

lemma handle_tidy:
  assumes "tidy_disabled s" "request_ok req"
  shows "tidy_disabled (snd (handle e req s))"
proof (cases req)
  case (Create body nu nt)
  show ?thesis
  proof (cases "passes_checks req s")
    case False
    with noop_unchanged [of req s e] assms(1) Create show ?thesis by simp
  next
    case True
    then obtain n where n: "request_username body = Inr n" "check_username n = None"
      "n \<notin> usernames s"
      unfolding Create by (auto split: sum.splits)
    from assms(2) have "uuid_shape nu" unfolding Create by simp
    from create_fresh_state(2) [OF n this, of e nt] assms(1) show ?thesis
      unfolding Create by (simp add: tidy_disabled_def)
  qed
next
  case (Delete name)
  show ?thesis
  proof (cases "name \<in> usernames s")
    case False
    with assms(1) show ?thesis unfolding Delete by (simp add: delete_missing)
  next
    case True
    obtain r s' where d: "delete_user name s = (r, s')" by (rule prod.exhaust)
    have "read_disabled s' = read_disabled s - {name} - {[]}"
      using True tidy_plain [OF assms(1)] d by (rule delete_state(2))
    then have "read_disabled s' \<subseteq> read_disabled s" by blast
    with assms(1) have "tidy_disabled s'" by (rule tidy_subset)
    then show ?thesis unfolding Delete by (simp add: d)
  qed
next
  case (Disable name)
  show ?thesis
  proof (cases "name \<in> usernames s")
    case False
    with assms(1) show ?thesis unfolding Disable by (simp add: disable_missing)
  next
    case True
    obtain r s' where d: "disable_user name s = (r, s')" by (rule prod.exhaust)
    from assms(2) have "name \<noteq> []" unfolding Disable by (simp add: route_name_def)
    from disable_state(3) [OF True this assms(1) d] show ?thesis unfolding Disable by (simp add: d)
  qed
next
  case (Enable name)
  show ?thesis
  proof (cases "name \<in> usernames s")
    case False
    with assms(1) show ?thesis unfolding Enable by (simp add: enable_missing)
  next
    case True
    obtain r s' where d: "enable_user name s = (r, s')" by (rule prod.exhaust)
    from enable_state(3) [OF True assms(1) d] show ?thesis unfolding Enable by (simp add: d)
  qed
next
  case (Reset name)
  with assms(1) show ?thesis
    by (simp add: reset_traffic_def Let_def tidy_disabled_def split: sum.splits)
qed

lemma spec_clients_length:
  "length (spec_active_clients s) = card (usernames s - read_disabled s)"
proof -
  let ?xs = "filter (\<lambda>(name, uid). name \<notin> read_disabled s) (read_uuids s)"
  have d: "distinct (map fst ?xs)"
    using read_uuids_wf [of s] by (simp add: wf_uuids_def distinct_map_filter)
  have "set (map fst ?xs) = usernames s - read_disabled s"
    by (auto simp: usernames_def)
  then have "card (usernames s - read_disabled s) = length (map fst ?xs)"
    using distinct_card [OF d] by simp
  moreover have "length (spec_active_clients s) = length ?xs"
    unfolding clients_of_spec [symmetric] by (simp add: clients_of_def active_uuids_def)
  ultimately show ?thesis by simp
qed

subsection \<open>What a deletion cleans\<close>



























subsection \<open>Requests on a configuration that cannot be used\<close>









section \<open>The claims\<close>

subsection \<open>Resetting the traffic of a user\<close>

lemma reset_unknown:
  "name \<notin> usernames s \<Longrightarrow>
   reset_traffic name s = (Inr (404, error_body (''User '' @ quoted name @ '' not found'')), s)"
  by (simp add: reset_traffic_def usernames_def)

lemma reset_known:
  assumes "name \<in> usernames s" "read_totals s = JObj kvs"
  shows "reset_traffic name s =
      (Inr (200, message_body (''Traffic reset for '' @ quoted name)),
       write_totals (JObj (AList.update name zero_record kvs)) s)"
  using assms by (simp add: reset_traffic_def usernames_def)

text \<open>
  Claim C9. For a name that is not in the credential table, \<open>reset_traffic\<close> answers 404 and
  changes no file. For a user of the credential table, when the ledger is a JSON object
  (also when its file is absent or unreadable, which reads as the empty object), it
  answers 200, the user's record becomes uplink 0, downlink 0 and an empty last-seen, the
  record of every other user is as before, and the credential table is as before.
\<close>

theorem reset_sets_zero_record:
  "(name \<notin> usernames s \<longrightarrow>
      reset_traffic name s = (Inr (404, error_body (''User '' @ quoted name @ '' not found'')), s))
   \<and> (name \<in> usernames s \<and> is_object (read_totals s) \<longrightarrow>
        fst (reset_traffic name s) = Inr (200, message_body (''Traffic reset for '' @ quoted name))
        \<and> ledger_record (snd (reset_traffic name s)) name
            = Some (JObj [(''up'', JNum 0), (''dn'', JNum 0), (''last_seen'', JStr [])])
        \<and> (\<forall>other. other \<noteq> name \<longrightarrow>
              ledger_record (snd (reset_traffic name s)) other = ledger_record s other)
        \<and> usernames (snd (reset_traffic name s)) = usernames s)"
proof (intro conjI impI)
  assume "name \<notin> usernames s"
  then show "reset_traffic name s = (Inr (404, error_body (''User '' @ quoted name @ '' not found'')), s)"
    by (rule reset_unknown)
next
  assume a: "name \<in> usernames s \<and> is_object (read_totals s)"
  then obtain kvs where kvs: "read_totals s = JObj kvs"
    by (cases "read_totals s") (auto simp: is_object_def)
  note r = reset_known [OF conjunct1 [OF a] kvs]
  show "fst (reset_traffic name s) = Inr (200, message_body (''Traffic reset for '' @ quoted name))"
    by (simp add: r)
  show "ledger_record (snd (reset_traffic name s)) name
            = Some (JObj [(''up'', JNum 0), (''dn'', JNum 0), (''last_seen'', JStr [])])"
    by (simp add: r ledger_record_def update_conv' zero_record_def)
  show "\<forall>other. other \<noteq> name \<longrightarrow>
              ledger_record (snd (reset_traffic name s)) other = ledger_record s other"
    by (simp add: r ledger_record_def kvs update_conv')
  show "usernames (snd (reset_traffic name s)) = usernames s"
    by (simp add: r)
qed

theorem reset_sets_zero_record_witness:
  "''alice'' \<in> usernames alice_fs \<and> is_object (read_totals alice_fs)
   \<and> ledger_record alice_fs ''alice''
       = Some (JObj [(''up'', JNum 500), (''dn'', JNum 300), (''last_seen'', JStr ''2024-05-01T10:00:00'')])
   \<and> fst (reset_traffic ''alice'' alice_fs)
       = Inr (200, message_body (''Traffic reset for '' @ quoted ''alice''))
   \<and> ledger_record (snd (reset_traffic ''alice'' alice_fs)) ''alice''
       = Some (JObj [(''up'', JNum 0), (''dn'', JNum 0), (''last_seen'', JStr [])])
   \<and> ledger_record (snd (reset_traffic ''alice'' alice_fs)) ''bob'' = ledger_record alice_fs ''bob''
   \<and> ''carol'' \<notin> usernames alice_fs
   \<and> reset_traffic ''carol'' alice_fs
       = (Inr (404, error_body (''User '' @ quoted ''carol'' @ '' not found'')), alice_fs)"
proof -
  have a: "''alice'' \<in> usernames alice_fs" by code_simp
  have c: "''carol'' \<notin> usernames alice_fs" by code_simp
  have o: "is_object (read_totals alice_fs)" by code_simp
  have l: "ledger_record alice_fs ''alice''
       = Some (JObj [(''up'', JNum 500), (''dn'', JNum 300), (''last_seen'', JStr ''2024-05-01T10:00:00'')])"
    by code_simp
  have b: "''bob'' \<noteq> ''alice''" by simp
  note t = reset_sets_zero_record [of "''alice''" alice_fs]
  note t' = reset_sets_zero_record [of "''carol''" alice_fs]
  have 4: "reset_traffic ''carol'' alice_fs
       = (Inr (404, error_body (''User '' @ quoted ''carol'' @ '' not found'')), alice_fs)"
    by (rule mp [OF conjunct1 [OF t'] c])
  have all: "fst (reset_traffic ''alice'' alice_fs)
       = Inr (200, message_body (''Traffic reset for '' @ quoted ''alice''))
     \<and> ledger_record (snd (reset_traffic ''alice'' alice_fs)) ''alice''
       = Some (JObj [(''up'', JNum 0), (''dn'', JNum 0), (''last_seen'', JStr [])])
     \<and> (\<forall>other. other \<noteq> ''alice'' \<longrightarrow>
              ledger_record (snd (reset_traffic ''alice'' alice_fs)) other = ledger_record alice_fs other)
     \<and> usernames (snd (reset_traffic ''alice'' alice_fs)) = usernames alice_fs"
    by (rule mp [OF conjunct2 [OF t] conjI [OF a o]])
  note 1 = conjunct1 [OF all]
  note 2 = conjunct1 [OF conjunct2 [OF all]]
  note 3 = mp [OF spec [OF conjunct1 [OF conjunct2 [OF conjunct2 [OF all]]]] b]
  from a o l 1 2 3 c 4 show ?thesis by (intro conjI) assumption+
qed

subsection \<open>Validation of the username\<close>

text \<open>
Claim C3, as the code has it. For a request whose \<open>username\<close> field is the text \<open>u\<close>,
  \<open>create_user\<close> answers 400 exactly when the trimmed username is empty, is longer than 32
  characters, has a character that is neither alphanumeric nor \<open>_\<close> nor \<open>-\<close>, or has no
  alphanumeric character at all. The validation accepts exactly the names of 1 to 32
  characters, all alphanumeric, \<open>_\<close> or \<open>-\<close>, with at least one alphanumeric character. A
  name made of \<open>_\<close> and \<open>-\<close> only is rejected: after both are removed nothing is left,
  and \<open>isalnum\<close> is false on the empty text; the counterexample is the username \<open>_\<close>.
\<close>

theorem issue_rejects_iff:
  "(http_status (fst (create_user e nu nt (username_body u) s)) = 400
      \<longleftrightarrow> py_strip u = [] \<or> 32 < length (py_strip u) \<or> \<not> list_all name_char (py_strip u)
          \<or> \<not> list_ex isalnum_char (py_strip u))
   \<and> (check_username n = None
      \<longleftrightarrow> 1 \<le> length n \<and> length n \<le> 32 \<and> list_all name_char n \<and> list_ex isalnum_char n)"
proof
  show "http_status (fst (create_user e nu nt (username_body u) s)) = 400
      \<longleftrightarrow> py_strip u = [] \<or> 32 < length (py_strip u) \<or> \<not> list_all name_char (py_strip u)
          \<or> \<not> list_ex isalnum_char (py_strip u)"
  proof (cases "check_username (py_strip u) = None")
    case True
    with create_valid_not_400 [OF request_username_body True, of e nu nt s] show ?thesis
      by (auto simp: check_username_None)
  next
    case False
    with create_invalid_400 [OF request_username_body False, of e nu nt s] show ?thesis
      by (auto simp: check_username_None)
  qed
  show "check_username n = None
      \<longleftrightarrow> 1 \<le> length n \<and> length n \<le> 32 \<and> list_all name_char n \<and> list_ex isalnum_char n"
    by (cases n) (auto simp: check_username_None)
qed

theorem issue_rejects_iff_witness:
  "http_status (fst (create_user env0 uuid1 token1 (username_body '' alice_01 '') (fresh (Json cfg_vless))))
     \<noteq> 400
   \<and> http_status (fst (create_user env0 uuid1 token1 (username_body ''al ice'') (fresh (Json cfg_vless))))
     = 400
   \<and> check_username ''a-b_C9'' = None"
proof -
  note t = issue_rejects_iff [of env0 uuid1 token1 "'' alice_01 ''" "fresh (Json cfg_vless)" "''a-b_C9''"]
  note t' = issue_rejects_iff [of env0 uuid1 token1 "''al ice''" "fresh (Json cfg_vless)" "''a-b_C9''"]
  have 1: "\<not> (py_strip '' alice_01 '' = [] \<or> 32 < length (py_strip '' alice_01 '')
          \<or> \<not> list_all name_char (py_strip '' alice_01 '')
          \<or> \<not> list_ex isalnum_char (py_strip '' alice_01 ''))"
    by code_simp
  have 2: "py_strip ''al ice'' = [] \<or> 32 < length (py_strip ''al ice'')
          \<or> \<not> list_all name_char (py_strip ''al ice'')
          \<or> \<not> list_ex isalnum_char (py_strip ''al ice'')"
    by code_simp
  have 3: "1 \<le> length ''a-b_C9'' \<and> length ''a-b_C9'' \<le> 32 \<and> list_all name_char ''a-b_C9''
          \<and> list_ex isalnum_char ''a-b_C9''"
    by code_simp
  have a: "http_status (fst (create_user env0 uuid1 token1 (username_body '' alice_01 '') (fresh (Json cfg_vless))))
     \<noteq> 400"
    using 1 unfolding conjunct1 [OF t] .
  have b: "http_status (fst (create_user env0 uuid1 token1 (username_body ''al ice'') (fresh (Json cfg_vless))))
     = 400"
    using 2 unfolding conjunct1 [OF t'] .
  have c: "check_username ''a-b_C9'' = None"
    using 3 unfolding conjunct2 [OF t] .
  from a b c show ?thesis by (intro conjI)
qed

theorem issue_rejects_counterexample:
  "length ''_'' = 1 \<and> list_all name_char ''_''
   \<and> create_user env0 uuid1 token1 (username_body ''_'') (fresh (Json cfg_vless))
       = (Inr (400, error_body ''Username must be alphanumeric (with _ or -)''), fresh (Json cfg_vless))"
  by code_simp

subsection \<open>Creation without a reality inbound\<close>

text \<open>
  Claim C4, as the code has it. No exception stands for an incomplete configuration:
  \<open>build_vless_link\<close> returns \<open>None\<close> exactly when the configuration parses to an object
  whose inbounds can be iterated and none of them carries reality parameters. Then
  \<open>create_subscription_file\<close> returns no token and writes no descriptor file, and the
  creation of a fresh valid user leaves the subscription directory as it was; it answers
  201 with \<open>subscription_url\<close> null when the first vless inbound, if there is one, has
  settings that are an object, and otherwise leaves with the exception of the rebuild:
  \<open>KeyError\<close> for missing settings, \<open>TypeError\<close> for settings that are not an object.
\<close>

theorem no_reality_inbound_null_url:
  "(build_vless_link e n nu s = Inr None \<longleftrightarrow> without_reality s)
   \<and> (without_reality s \<longrightarrow> create_subscription_file e n nu nt s = (Inr None, s))
   \<and> (without_reality s \<and> request_username body = Inr n \<and> check_username n = None
        \<and> n \<notin> usernames s \<longrightarrow>
        sub_dir (snd (create_user e nu nt body s)) = sub_dir s
        \<and> fst (create_user e nu nt body s)
            = (case settings_error s of
                 None \<Rightarrow> Inr (201, JObj [(''username'', JStr n), (''uuid'', JStr nu),
                                         (''subscription_url'', JNull),
                                         (''status'', JStr ''active'')])
               | Some err \<Rightarrow> Inl err))"
proof (intro conjI impI)
  show "build_vless_link e n nu s = Inr None \<longleftrightarrow> without_reality s" by (rule link_none_iff)
next
  assume "without_reality s"
  then have "build_vless_link e n nu s = Inr None" by (simp add: link_none_iff)
  then show "create_subscription_file e n nu nt s = (Inr None, s)" by (rule subscription_none)
next
  assume a: "without_reality s \<and> request_username body = Inr n \<and> check_username n = None
        \<and> n \<notin> usernames s"
  then have wr: "without_reality s" and rq: "request_username body = Inr n"
    and ck: "check_username n = None" and fr: "n \<notin> usernames s" by simp_all
  let ?s1 = "write_uuids (AList.update n nu (read_uuids s)) s"
  have cf: "config_file ?s1 = config_file s" by simp
  from wr obtain items where il: "inbound_list s = Some items" and nr: "list_all no_reality items"
    by (auto simp: without_reality_def split: option.splits)
  have ob: "list_all is_object items" using nr no_reality_object by (auto simp: list_all_iff)
  have il1: "inbound_list ?s1 = Some items" using il inbound_list_cong [OF cf] by simp
  have wr1: "without_reality ?s1" using il1 nr by (simp add: without_reality_def)
  have sub: "create_subscription_file e n nu nt ?s1 = (Inr None, ?s1)"
    using wr1 by (simp add: link_none_iff subscription_none)
  obtain rr s3 where rb: "rebuild_xray_config (AList.update n nu (read_uuids s)) (read_disabled s) ?s1 = (rr, s3)"
    by (rule prod.exhaust)
  have rrv: "rr = (case settings_error s of None \<Rightarrow> Inr () | Some err \<Rightarrow> Inl err)"
    using rebuild_objects [OF il1 ob, of "AList.update n nu (read_uuids s)" "read_disabled s"] rb il
    by (simp add: settings_error_def)
  have sd: "sub_dir s3 = sub_dir s" using rebuild_fields(3) [OF rb] by simp
  have eq: "create_user e nu nt body s =
      (case rr of Inl err \<Rightarrow> (Inl err, s3) | Inr u \<Rightarrow> (Inr (201, created_body e n nu None), s3))"
    unfolding create_fresh [OF rq ck fr] sub by (simp add: rb split: sum.splits)
  show "sub_dir (snd (create_user e nu nt body s)) = sub_dir s"
    unfolding eq using sd by (simp split: sum.splits)
  show "fst (create_user e nu nt body s)
            = (case settings_error s of
                 None \<Rightarrow> Inr (201, JObj [(''username'', JStr n), (''uuid'', JStr nu),
                                         (''subscription_url'', JNull),
                                         (''status'', JStr ''active'')])
               | Some err \<Rightarrow> Inl err)"
    unfolding eq rrv by (simp add: created_body_def split: option.splits)
qed

theorem no_reality_inbound_null_url_witness:
  "without_reality (fresh (Json cfg_no_reality))
   \<and> request_username (username_body ''alice'') = Inr ''alice''
   \<and> check_username ''alice'' = None
   \<and> ''alice'' \<notin> usernames (fresh (Json cfg_no_reality))
   \<and> build_vless_link env0 ''alice'' uuid1 (fresh (Json cfg_no_reality)) = Inr None
   \<and> create_subscription_file env0 ''alice'' uuid1 token1 (fresh (Json cfg_no_reality))
       = (Inr None, fresh (Json cfg_no_reality))
   \<and> fst (create_user env0 uuid1 token1 (username_body ''alice'') (fresh (Json cfg_no_reality)))
       = Inr (201, JObj [(''username'', JStr ''alice''), (''uuid'', JStr uuid1),
                         (''subscription_url'', JNull), (''status'', JStr ''active'')])
   \<and> without_reality (fresh (Json cfg_no_settings))
   \<and> fst (create_user env0 uuid1 token1 (username_body ''alice'') (fresh (Json cfg_no_settings)))
       = Inl KeyError
   \<and> \<not> without_reality (fresh (Json cfg_vless))
   \<and> build_vless_link env0 ''alice'' uuid1 (fresh (Json cfg_vless)) \<noteq> Inr None"
proof -
  let ?s = "fresh (Json cfg_no_reality)"
  let ?k = "fresh (Json cfg_no_settings)"
  have w: "without_reality ?s" by code_simp
  have rq: "request_username (username_body ''alice'') = Inr ''alice''" by code_simp
  have ck: "check_username ''alice'' = None" by code_simp
  have fr: "''alice'' \<notin> usernames ?s" by code_simp
  have se: "settings_error ?s = None" by code_simp
  have w': "without_reality ?k" by code_simp
  have fr': "''alice'' \<notin> usernames ?k" by code_simp
  have se': "settings_error ?k = Some KeyError" by code_simp
  have nw: "\<not> without_reality (fresh (Json cfg_vless))" by code_simp
  note t = no_reality_inbound_null_url [of env0 "''alice''" uuid1 ?s token1 "username_body ''alice''"]
  note t' = no_reality_inbound_null_url [of env0 "''alice''" uuid1 ?k token1 "username_body ''alice''"]
  note t'' = no_reality_inbound_null_url [of env0 "''alice''" uuid1 "fresh (Json cfg_vless)" token1
      "username_body ''alice''"]
  note 1 = iffD2 [OF conjunct1 [OF t] w]
  note 2 = mp [OF conjunct1 [OF conjunct2 [OF t]] w]
  note o = mp [OF conjunct2 [OF conjunct2 [OF t]] conjI [OF w conjI [OF rq conjI [OF ck fr]]]]
  have 3: "fst (create_user env0 uuid1 token1 (username_body ''alice'') ?s)
       = Inr (201, JObj [(''username'', JStr ''alice''), (''uuid'', JStr uuid1),
                         (''subscription_url'', JNull), (''status'', JStr ''active'')])"
    using conjunct2 [OF o] unfolding se by (simp only: option.case)
  note o' = mp [OF conjunct2 [OF conjunct2 [OF t']] conjI [OF w' conjI [OF rq conjI [OF ck fr']]]]
  have 4: "fst (create_user env0 uuid1 token1 (username_body ''alice'') ?k) = Inl KeyError"
    using conjunct2 [OF o'] unfolding se' by (simp only: option.case)
  have 5: "build_vless_link env0 ''alice'' uuid1 (fresh (Json cfg_vless)) \<noteq> Inr None"
    using nw unfolding conjunct1 [OF t''] .
  from w rq ck fr 1 2 3 w' 4 nw 5 show ?thesis by (intro conjI)
qed

theorem null_subscription_url_counterexample:
  "without_reality (fresh (Json cfg_no_reality))
   \<and> fst (create_user env0 uuid2 token2 (username_body ''bob'') (fresh (Json cfg_no_reality)))
       = Inr (201, JObj [(''username'', JStr ''bob''), (''uuid'', JStr uuid2),
                         (''subscription_url'', JNull), (''status'', JStr ''active'')])
   \<and> sub_dir (snd (create_user env0 uuid2 token2 (username_body ''bob'') (fresh (Json cfg_no_reality))))
       = []"
  by code_simp

subsection \<open>Creating the same user twice\<close>

text \<open>
Claim C5. When a request has created a user (answer 201, with the identifier a UUID
  text), the credential table maps the username to that identifier, and a second request to
  create the same username answers 409 and returns the files as they were: the credential
  table has the same entries and the same size as before the failed call.
\<close>

theorem issue_twice_conflict:
  assumes "request_username body = Inr n"
    and "create_user e nu nt body s = (Inr (201, b), s1)" "uuid_shape nu"
  shows "map_of (read_uuids s1) n = Some nu
    \<and> create_user e nu2 nt2 body s1
        = (Inr (409, error_body (''User '' @ quoted n @ '' already exists'')), s1)
    \<and> read_uuids (snd (create_user e nu2 nt2 body s1)) = read_uuids s1
    \<and> length (read_uuids (snd (create_user e nu2 nt2 body s1))) = length (read_uuids s1)"
proof -
  note v = created_was_fresh [OF assms(1,2)]
  have "read_uuids (snd (create_user e nu nt body s)) = read_uuids s @ [(n, nu)]"
    using assms(1) v assms(3) by (rule create_fresh_state(1))
  then have u1: "read_uuids s1 = read_uuids s @ [(n, nu)]" by (simp add: assms(2))
  have "map_of (read_uuids s) n = None"
    using v(2) by (simp add: usernames_def map_of_eq_None_iff)
  then have 1: "map_of (read_uuids s1) n = Some nu" by (simp add: u1 map_add_def)
  have "n \<in> usernames s1" by (simp add: usernames_def u1)
  with assms(1) v(1)
  have 2: "create_user e nu2 nt2 body s1
        = (Inr (409, error_body (''User '' @ quoted n @ '' already exists'')), s1)"
    by (rule create_conflict)
  from 1 2 show ?thesis by simp
qed

theorem issue_twice_conflict_witness:
  "request_username (username_body ''alice'') = Inr ''alice''
   \<and> fst (create_user env0 uuid1 token1 (username_body ''alice'') (fresh (Json cfg_vless)))
       = Inr (201, created_body env0 ''alice'' uuid1 (Some token1))
   \<and> uuid_shape uuid1
   \<and> create_user env0 uuid2 token2 (username_body ''alice'')
        (snd (create_user env0 uuid1 token1 (username_body ''alice'') (fresh (Json cfg_vless))))
       = (Inr (409, error_body (''User '' @ quoted ''alice'' @ '' already exists'')),
          snd (create_user env0 uuid1 token1 (username_body ''alice'') (fresh (Json cfg_vless))))
   \<and> map_of (read_uuids (snd (create_user env0 uuid1 token1 (username_body ''alice'')
                                 (fresh (Json cfg_vless))))) ''alice'' = Some uuid1"
proof -
  let ?c = "create_user env0 uuid1 token1 (username_body ''alice'') (fresh (Json cfg_vless))"
  have a: "request_username (username_body ''alice'') = Inr ''alice''" by code_simp
  have f: "fst ?c = Inr (201, created_body env0 ''alice'' uuid1 (Some token1))" by code_simp
  have u: "uuid_shape uuid1" by code_simp
  have h: "?c = (Inr (201, created_body env0 ''alice'' uuid1 (Some token1)), snd ?c)"
    by (rule prod_eqI) (simp_all add: f)
  note t = issue_twice_conflict [OF a h u, of uuid2 token2]
  from a f u conjunct1 [OF conjunct2 [OF t]] conjunct1 [OF t] show ?thesis by (intro conjI)
qed

subsection \<open>Whitespace around the username\<close>

text \<open>
Claim C10. For a valid name \<open>n\<close> surrounded by whitespace in the request, the username that
  is validated and stored is \<open>n\<close>: the credential table gets the entry of \<open>n\<close> appended,
  every response of the call is 201 with username \<open>n\<close>, and a later request for \<open>n\<close> with
  other surrounding whitespace answers 409 and changes no file.
\<close>

theorem create_trims_username:
  assumes "check_username n = None" "ws_only w1" "ws_only w2" "ws_only w3" "ws_only w4"
    and "n \<notin> usernames s" "uuid_shape nu"
  shows "request_username (username_body (w1 @ n @ w2)) = Inr n
    \<and> read_uuids (snd (create_user e nu nt (username_body (w1 @ n @ w2)) s)) = read_uuids s @ [(n, nu)]
    \<and> (\<forall>code b. fst (create_user e nu nt (username_body (w1 @ n @ w2)) s) = Inr (code, b)
          \<longrightarrow> code = 201 \<and> body_field b ''username'' = Some (JStr n))
    \<and> create_user e nu2 nt2 (username_body (w3 @ n @ w4))
          (snd (create_user e nu nt (username_body (w1 @ n @ w2)) s))
        = (Inr (409, error_body (''User '' @ quoted n @ '' already exists'')),
           snd (create_user e nu nt (username_body (w1 @ n @ w2)) s))"
proof -
  let ?s1 = "snd (create_user e nu nt (username_body (w1 @ n @ w2)) s)"
  have r1: "request_username (username_body (w1 @ n @ w2)) = Inr n"
    using strip_padded [OF assms(1,2,3)] by simp
  have r2: "request_username (username_body (w3 @ n @ w4)) = Inr n"
    using strip_padded [OF assms(1,4,5)] by simp
  have u1: "read_uuids ?s1 = read_uuids s @ [(n, nu)]"
    using r1 assms(1,6,7) by (rule create_fresh_state(1))
  have o: "\<forall>code b. fst (create_user e nu nt (username_body (w1 @ n @ w2)) s) = Inr (code, b)
          \<longrightarrow> code = 201 \<and> body_field b ''username'' = Some (JStr n)"
    using create_fresh_outcome [OF r1 assms(1,6)] by blast
  have "n \<in> usernames ?s1" by (simp add: usernames_def u1)
  with r2 assms(1)
  have c: "create_user e nu2 nt2 (username_body (w3 @ n @ w4)) ?s1
        = (Inr (409, error_body (''User '' @ quoted n @ '' already exists'')), ?s1)"
    by (rule create_conflict)
  from r1 u1 o c show ?thesis by (intro conjI)
qed

theorem create_trims_username_witness:
  "check_username ''bob-2'' = None \<and> ws_only ''  '' \<and> ws_only [CHR 0x09] \<and> ws_only []
   \<and> ws_only [CHR 0x0A, CHR '' ''] \<and> ''bob-2'' \<notin> usernames alice_fs \<and> uuid_shape uuid2
   \<and> read_uuids (snd (create_user env0 uuid2 token2 (username_body (''  '' @ ''bob-2'' @ [CHR 0x09])) alice_fs))
       = read_uuids alice_fs @ [(''bob-2'', uuid2)]
   \<and> fst (create_user env0 uuid2 token2 (username_body (''  '' @ ''bob-2'' @ [CHR 0x09])) alice_fs)
       = Inr (201, created_body env0 ''bob-2'' uuid2 (Some token2))
   \<and> create_user env0 uuid1 token1 (username_body ([] @ ''bob-2'' @ [CHR 0x0A, CHR '' '']))
          (snd (create_user env0 uuid2 token2 (username_body (''  '' @ ''bob-2'' @ [CHR 0x09])) alice_fs))
        = (Inr (409, error_body (''User '' @ quoted ''bob-2'' @ '' already exists'')),
           snd (create_user env0 uuid2 token2 (username_body (''  '' @ ''bob-2'' @ [CHR 0x09])) alice_fs))"
proof -
  have 1: "check_username ''bob-2'' = None" by code_simp
  have 2: "ws_only ''  ''" by code_simp
  have 3: "ws_only [CHR 0x09]" by code_simp
  have 4: "ws_only []" by code_simp
  have 5: "ws_only [CHR 0x0A, CHR '' '']" by code_simp
  have 6: "''bob-2'' \<notin> usernames alice_fs" by code_simp
  have 7: "uuid_shape uuid2" by code_simp
  have f: "fst (create_user env0 uuid2 token2 (username_body (''  '' @ ''bob-2'' @ [CHR 0x09])) alice_fs)
       = Inr (201, created_body env0 ''bob-2'' uuid2 (Some token2))" by code_simp
  note t = create_trims_username [OF 1 2 3 4 5 6 7, of env0 token2 uuid1 token1]
  from 1 2 3 4 5 6 7 conjunct1 [OF conjunct2 [OF t]] f conjunct2 [OF conjunct2 [OF conjunct2 [OF t]]]
  show ?thesis by (intro conjI)
qed

subsection \<open>Disabling and enabling\<close>

text \<open>
Claim C7. For a user of the credential table, with a name a route can carry and a
  disabled-set file whose lines are non-empty trimmed names: disabling a disabled user
  answers 200 with the message that the user is already disabled and changes no file;
  enabling an enabled user is the same with its own message; a second \<open>disable_user\<close> right
  after a first one, and a second \<open>enable_user\<close> right after a first one, are such
  no-ops; a \<open>disable_user\<close> that adds the user writes a file without repeated lines; after
  \<open>disable_user\<close> the status is \<open>disabled\<close>, and after \<open>disable_user\<close> then \<open>enable_user\<close> it is
  \<open>active\<close>. This holds whether or not the rebuild of the configuration raises.
\<close>

theorem toggle_idempotent:
  assumes "name \<in> usernames s" "route_name name" "tidy_disabled s"
  shows "(name \<in> read_disabled s \<longrightarrow>
            disable_user name s
              = (Inr (200, message_body (''User '' @ quoted name @ '' is already disabled'')), s))
    \<and> (name \<notin> read_disabled s \<longrightarrow>
            enable_user name s
              = (Inr (200, message_body (''User '' @ quoted name @ '' is already enabled'')), s))
    \<and> disable_user name (snd (disable_user name s))
         = (Inr (200, message_body (''User '' @ quoted name @ '' is already disabled'')),
            snd (disable_user name s))
    \<and> enable_user name (snd (enable_user name s))
         = (Inr (200, message_body (''User '' @ quoted name @ '' is already enabled'')),
            snd (enable_user name s))
    \<and> (name \<notin> read_disabled s \<longrightarrow> distinct (disabled_lines (snd (disable_user name s))))
    \<and> status_of (snd (disable_user name s)) name = ''disabled''
    \<and> status_of (snd (enable_user name (snd (disable_user name s)))) name = ''active''"
proof -
  from assms(2) have ne: "name \<noteq> []" by (simp add: route_name_def)
  obtain r1 s1 where d1: "disable_user name s = (r1, s1)" by (rule prod.exhaust)
  note ds = disable_state [OF assms(1) ne assms(3) d1]
  have k1: "name \<in> usernames s1" using assms(1) usernames_read_uuids [OF ds(2)] by simp
  obtain r2 s2 where e2: "enable_user name s1 = (r2, s2)" by (rule prod.exhaust)
  note es = enable_state [OF k1 ds(3) e2]
  obtain r3 s3 where e3: "enable_user name s = (r3, s3)" by (rule prod.exhaust)
  note es3 = enable_state [OF assms(1,3) e3]
  have k3: "name \<in> usernames s3" using assms(1) usernames_read_uuids [OF es3(2)] by simp
  have 1: "name \<in> read_disabled s \<longrightarrow>
            disable_user name s
              = (Inr (200, message_body (''User '' @ quoted name @ '' is already disabled'')), s)"
    using assms(1) by (simp add: disable_already)
  have 2: "name \<notin> read_disabled s \<longrightarrow>
            enable_user name s
              = (Inr (200, message_body (''User '' @ quoted name @ '' is already enabled'')), s)"
    using assms(1) by (simp add: enable_already)
  have "name \<in> read_disabled s1" by (simp add: ds(1))
  with k1 have 3: "disable_user name s1
         = (Inr (200, message_body (''User '' @ quoted name @ '' is already disabled'')), s1)"
    by (rule disable_already)
  have "name \<notin> read_disabled s3" by (simp add: es3(1))
  with k3 have 4: "enable_user name s3
         = (Inr (200, message_body (''User '' @ quoted name @ '' is already enabled'')), s3)"
    by (rule enable_already)
  have 5: "name \<notin> read_disabled s \<longrightarrow> distinct (disabled_lines s1)"
  proof
    assume n: "name \<notin> read_disabled s"
    note w = written_disabled(3) [OF _ tidy_insert [OF assms(3,1) ne], of s, simplified]
    from d1 show "distinct (disabled_lines s1)"
    proof (cases rule: disable_user_cases)
      case missing with assms(1) show ?thesis by simp
    next
      case already with n show ?thesis by simp
    next
      case (changed x)
      from rebuild_tidy(2) [OF changed(3)] w show ?thesis by simp
    next
      case (failed err)
      with w show ?thesis by simp
    qed
  qed
  have 6: "status_of s1 name = ''disabled''" by (simp add: status_of_def ds(1))
  have 7: "status_of s2 name = ''active''" by (simp add: status_of_def es(1))
  from 1 2 3 4 5 6 7 show ?thesis unfolding d1 e2 e3 snd_conv by (intro conjI)
qed

theorem toggle_idempotent_witness:
  "''alice'' \<in> usernames alice_fs \<and> route_name ''alice'' \<and> tidy_disabled alice_fs
   \<and> ''alice'' \<notin> read_disabled alice_fs
   \<and> enable_user ''alice'' alice_fs
        = (Inr (200, message_body (''User '' @ quoted ''alice'' @ '' is already enabled'')), alice_fs)
   \<and> disable_user ''alice'' (snd (disable_user ''alice'' alice_fs))
        = (Inr (200, message_body (''User '' @ quoted ''alice'' @ '' is already disabled'')),
           snd (disable_user ''alice'' alice_fs))
   \<and> distinct (disabled_lines (snd (disable_user ''alice'' alice_fs)))
   \<and> status_of (snd (disable_user ''alice'' alice_fs)) ''alice'' = ''disabled''
   \<and> status_of (snd (enable_user ''alice'' (snd (disable_user ''alice'' alice_fs)))) ''alice'' = ''active''"
proof -
  have a: "''alice'' \<in> usernames alice_fs" by code_simp
  have b: "route_name ''alice''" by code_simp
  have c: "tidy_disabled alice_fs" by code_simp
  have d: "''alice'' \<notin> read_disabled alice_fs" by code_simp
  note t = toggle_idempotent [OF a b c]
  note t2 = conjunct2 [OF t]
  note t3 = conjunct2 [OF t2]
  note t4 = conjunct2 [OF t3]
  note t5 = conjunct2 [OF t4]
  from a b c d mp [OF conjunct1 [OF t2] d] conjunct1 [OF t3] mp [OF conjunct1 [OF t5] d]
    conjunct1 [OF conjunct2 [OF t5]] conjunct2 [OF conjunct2 [OF t5]]
  show ?thesis by (intro conjI)
qed

subsection \<open>The disabled set stays inside the credential table\<close>

text \<open>
Claim C8. When every name of the disabled set is a user of the credential table, the
  same holds after any sequence of requests (creations with an identifier that is a UUID
  text, deletions, disablings, enablings, resets), whatever each request answers and
  also when one ends with an exception: \<open>disable_user\<close> answers 404 and writes nothing for a
  name that is not in the credential table, and \<open>delete_user\<close> leaves the deleted name out
  of the disabled set. Without any file, the disabled set is empty and the property holds.
\<close>

theorem disabled_subset_of_table:
  assumes "read_disabled s \<subseteq> usernames s" "list_all request_ok reqs"
  shows "read_disabled (run e reqs s) \<subseteq> usernames (run e reqs s)
    \<and> (\<forall>name. name \<notin> usernames s \<longrightarrow>
          disable_user name s
            = (Inr (404, error_body (''User '' @ quoted name @ '' not found'')), s))
    \<and> (\<forall>name. name \<in> usernames s \<longrightarrow> name \<notin> read_disabled (snd (delete_user name s)))"
proof -
  have 1: "read_disabled (run e reqs s) \<subseteq> usernames (run e reqs s)"
    using assms by (rule run_subset)
  have 2: "\<forall>name. name \<notin> usernames s \<longrightarrow>
          disable_user name s
            = (Inr (404, error_body (''User '' @ quoted name @ '' not found'')), s)"
    by (simp add: disable_missing)
  have 3: "\<forall>name. name \<in> usernames s \<longrightarrow> name \<notin> read_disabled (snd (delete_user name s))"
    using delete_not_disabled assms(1) by blast
  from 1 2 3 show ?thesis by (intro conjI)
qed

theorem disabled_subset_of_table_witness:
  "read_disabled (fresh (Json cfg_vless)) \<subseteq> usernames (fresh (Json cfg_vless))
   \<and> list_all request_ok
        [Create (username_body ''alice'') uuid1 token1, Disable ''alice'',
         Create (username_body ''bob'') uuid2 token2, Delete ''alice'']
   \<and> read_disabled
        (run env0 [Create (username_body ''alice'') uuid1 token1, Disable ''alice'',
                   Create (username_body ''bob'') uuid2 token2, Delete ''alice'']
           (fresh (Json cfg_vless)))
       \<subseteq> usernames
        (run env0 [Create (username_body ''alice'') uuid1 token1, Disable ''alice'',
                   Create (username_body ''bob'') uuid2 token2, Delete ''alice'']
           (fresh (Json cfg_vless)))
   \<and> read_disabled
        (run env0 [Create (username_body ''alice'') uuid1 token1, Disable ''alice'']
           (fresh (Json cfg_vless))) = {''alice''}
   \<and> ''alice'' \<notin> read_disabled
        (snd (delete_user ''alice''
           (run env0 [Create (username_body ''alice'') uuid1 token1, Disable ''alice'']
              (fresh (Json cfg_vless)))))
   \<and> disable_user ''carol'' (fresh (Json cfg_vless))
        = (Inr (404, error_body (''User '' @ quoted ''carol'' @ '' not found'')),
           fresh (Json cfg_vless))"
proof -
  let ?s0 = "fresh (Json cfg_vless)"
  let ?reqs = "[Create (username_body ''alice'') uuid1 token1, Disable ''alice'',
         Create (username_body ''bob'') uuid2 token2, Delete ''alice'']"
  let ?s2 = "run env0 [Create (username_body ''alice'') uuid1 token1, Disable ''alice''] ?s0"
  have a: "read_disabled ?s0 \<subseteq> usernames ?s0" by code_simp
  have b: "list_all request_ok ?reqs" by code_simp
  have c: "read_disabled ?s2 = {''alice''}" by code_simp
  have k: "''alice'' \<in> usernames ?s2" by code_simp
  have i2: "read_disabled ?s2 \<subseteq> usernames ?s2" by code_simp
  have n: "''carol'' \<notin> usernames ?s0" by code_simp
  have e: "list_all request_ok []" by simp
  note t = disabled_subset_of_table [OF a b, of env0]
  note t2 = disabled_subset_of_table [OF i2 e, of env0]
  note 1 = conjunct1 [OF t]
  note 2 = mp [OF spec [OF conjunct1 [OF conjunct2 [OF t]]] n]
  note 3 = mp [OF spec [OF conjunct2 [OF conjunct2 [OF t2]]] k]
  from a b 1 c 3 2 show ?thesis by (intro conjI)
qed

subsection \<open>The client list follows the two tables\<close>

text \<open>
Claim C2, as the code has it. Let the configuration have a vless inbound, the
  disabled-set file hold non-empty trimmed names, and a create, delete, enable or disable
  request be answered with a response. If the request got past the checks of its handler,
  the client list of the first vless inbound is afterwards the list the specification
  asks for: one record per user of the credential table that is not in the disabled set,
  in the order of the table, with the user's identifier and the username as display
  label; it has as many records as there are such users. If the request did not get past
  the checks (400, 404, 409, or an already enabled or disabled user), no file is changed,
  so a client list that was right stays right. Without a vless inbound the request is
  answered all the same and no client list is written: the counterexample creates a user
  on a configuration whose only inbound is a vmess inbound.
\<close>

theorem clients_follow_tables:
  assumes "has_vless s" "tidy_disabled s" "request_ok req" "rebuilds req"
    and "handle e req s = (Inr resp, s')"
  shows "(passes_checks req s \<longrightarrow> active_clients_file s' = Some (JArr (spec_active_clients s')))
    \<and> (\<not> passes_checks req s \<longrightarrow> s' = s)
    \<and> (active_clients_file s = Some (JArr (spec_active_clients s))
          \<longrightarrow> active_clients_file s' = Some (JArr (spec_active_clients s')))
    \<and> length (spec_active_clients s') = card (usernames s' - read_disabled s')
    \<and> tidy_disabled s'"
proof -
  have 1: "passes_checks req s \<longrightarrow> active_clients_file s' = Some (JArr (spec_active_clients s'))"
    using passing_clients [OF assms] by blast
  have 2: "\<not> passes_checks req s \<longrightarrow> s' = s"
    using noop_unchanged [of req s e] assms(4,5) by auto
  have 3: "active_clients_file s = Some (JArr (spec_active_clients s))
          \<longrightarrow> active_clients_file s' = Some (JArr (spec_active_clients s'))"
    using 1 2 by blast
  have 4: "length (spec_active_clients s') = card (usernames s' - read_disabled s')"
    by (rule spec_clients_length)
  have 5: "tidy_disabled s'" using handle_tidy [OF assms(2,3), of e] assms(5) by simp
  from 1 2 3 4 5 show ?thesis by (intro conjI)
qed

theorem clients_follow_tables_witness:
  "has_vless alice_fs \<and> tidy_disabled alice_fs
   \<and> request_ok (Disable ''alice'') \<and> rebuilds (Disable ''alice'')
   \<and> passes_checks (Disable ''alice'') alice_fs
   \<and> fst (handle env0 (Disable ''alice'') alice_fs)
        = Inr (200, message_body (''User '' @ quoted ''alice'' @ '' disabled''))
   \<and> active_clients_file (snd (handle env0 (Disable ''alice'') alice_fs))
        = Some (JArr (spec_active_clients (snd (handle env0 (Disable ''alice'') alice_fs))))
   \<and> spec_active_clients (snd (handle env0 (Disable ''alice'') alice_fs)) = []
   \<and> request_ok (Create (username_body ''bob'') uuid2 token2)
   \<and> passes_checks (Create (username_body ''bob'') uuid2 token2) alice_fs
   \<and> fst (handle env0 (Create (username_body ''bob'') uuid2 token2) alice_fs)
        = Inr (201, created_body env0 ''bob'' uuid2 (Some token2))
   \<and> active_clients_file (snd (handle env0 (Create (username_body ''bob'') uuid2 token2) alice_fs))
        = Some (JArr (spec_active_clients
                        (snd (handle env0 (Create (username_body ''bob'') uuid2 token2) alice_fs))))
   \<and> spec_active_clients (snd (handle env0 (Create (username_body ''bob'') uuid2 token2) alice_fs))
        = [JObj [(''id'', JStr uuid1), (''flow'', JStr ''xtls-rprx-vision''),
                 (''email'', JStr ''alice''), (''level'', JNum 0)],
           JObj [(''id'', JStr uuid2), (''flow'', JStr ''xtls-rprx-vision''),
                 (''email'', JStr ''bob''), (''level'', JNum 0)]]"
proof -
  let ?d = "handle env0 (Disable ''alice'') alice_fs"
  let ?c = "handle env0 (Create (username_body ''bob'') uuid2 token2) alice_fs"
  have hv: "has_vless alice_fs" by code_simp
  have td: "tidy_disabled alice_fs" by code_simp
  have ok1: "request_ok (Disable ''alice'')" by code_simp
  have rb1: "rebuilds (Disable ''alice'')" by simp
  have pc1: "passes_checks (Disable ''alice'') alice_fs" by code_simp
  have f1: "fst ?d = Inr (200, message_body (''User '' @ quoted ''alice'' @ '' disabled''))"
    by code_simp
  have h1: "?d = (Inr (200, message_body (''User '' @ quoted ''alice'' @ '' disabled'')), snd ?d)"
    by (rule prod_eqI) (simp_all only: fst_conv snd_conv f1)
  have e1: "spec_active_clients (snd ?d) = []" by code_simp
  have ok2: "request_ok (Create (username_body ''bob'') uuid2 token2)" by code_simp
  have rb2: "rebuilds (Create (username_body ''bob'') uuid2 token2)" by simp
  have pc2: "passes_checks (Create (username_body ''bob'') uuid2 token2) alice_fs" by code_simp
  have f2: "fst ?c = Inr (201, created_body env0 ''bob'' uuid2 (Some token2))" by code_simp
  have h2: "?c = (Inr (201, created_body env0 ''bob'' uuid2 (Some token2)), snd ?c)"
    by (rule prod_eqI) (simp_all only: fst_conv snd_conv f2)
  have e2: "spec_active_clients (snd ?c)
        = [JObj [(''id'', JStr uuid1), (''flow'', JStr ''xtls-rprx-vision''),
                 (''email'', JStr ''alice''), (''level'', JNum 0)],
           JObj [(''id'', JStr uuid2), (''flow'', JStr ''xtls-rprx-vision''),
                 (''email'', JStr ''bob''), (''level'', JNum 0)]]"
    by code_simp
  note t1 = clients_follow_tables [OF hv td ok1 rb1 h1]
  note t2 = clients_follow_tables [OF hv td ok2 rb2 h2]
  note a1 = mp [OF conjunct1 [OF t1] pc1]
  note a2 = mp [OF conjunct1 [OF t2] pc2]
  from hv td ok1 rb1 pc1 f1 a1 e1 ok2 pc2 f2 a2 e2 show ?thesis by (intro conjI)
qed

theorem clients_without_vless_counterexample:
  "fst (handle env0 (Create (username_body ''carol'') uuid1 token1) (fresh (Json cfg_vmess)))
     = Inr (201, created_body env0 ''carol'' uuid1 None)
   \<and> spec_active_clients
        (snd (handle env0 (Create (username_body ''carol'') uuid1 token1) (fresh (Json cfg_vmess))))
       = [JObj [(''id'', JStr uuid1), (''flow'', JStr ''xtls-rprx-vision''),
                (''email'', JStr ''carol''), (''level'', JNum 0)]]
   \<and> active_clients_file
        (snd (handle env0 (Create (username_body ''carol'') uuid1 token1) (fresh (Json cfg_vmess))))
       = None
   \<and> config_file
        (snd (handle env0 (Create (username_body ''carol'') uuid1 token1) (fresh (Json cfg_vmess))))
       = Json cfg_vmess"
  by code_simp

subsection \<open>Revocation cascades\<close>



subsection \<open>An unusable configuration\<close>




end
